theory Spec2Isabelle
  imports Complex_Main "HOL-Library.Sublist"
begin

section \<open>Python values, strings and exceptions\<close>

text \<open>
  A Python \<open>str\<close> is a sequence of Unicode code points: \<open>len\<close> counts code points,
  and the encoding normalizer tells code points above 255 from the others. A string is
  therefore a list of natural numbers.
\<close>

type_synonym ustring = "nat list"

definition ustr :: "string \<Rightarrow> ustring" where
  "ustr s = map of_char s"

subsection \<open>Floats\<close>

text \<open>
  A Python float is an IEEE binary64 value: a finite value, an infinity or NaN. A finite
  value is held as the rational number it denotes; minus zero is not told from zero
  (the two compare equal, and nothing below divides by a time). Every operation
  computes the exact result and rounds it to the nearest binary64 value, ties to even,
  as the hardware does.
\<close>

datatype double = Finite rat | PosInf | NegInf | NaN

text \<open>The number of binary digits of \<open>n\<close>.\<close>

function bit_length :: "nat \<Rightarrow> nat" where
  "bit_length n = (if n = 0 then 0 else Suc (bit_length (n div 2)))"
  by pat_completeness auto
termination
  by (relation "measure id") auto

declare bit_length.simps [simp del]

definition pow2 :: "int \<Rightarrow> rat" where
  "pow2 k = (if 0 \<le> k then 2 ^ nat k else 1 / 2 ^ nat (- k))"

text \<open>For \<open>x > 0\<close>, the exponent \<open>e\<close> with \<open>2^e \<le> x < 2^(e+1)\<close>.\<close>

definition floor_log2 :: "rat \<Rightarrow> int" where
  "floor_log2 x =
     (if 1 \<le> x then int (bit_length (nat \<lfloor>x\<rfloor>)) - 1
      else let k = int (bit_length (nat \<lfloor>1 / x\<rfloor>)) - 1
           in if 1 / x = pow2 k then - k else - k - 1)"

definition round_half_even :: "rat \<Rightarrow> int" where
  "round_half_even n =
     (let f = \<lfloor>n\<rfloor>; d = n - of_int f
      in if d < 1 / 2 then f else if 1 / 2 < d then f + 1 else if even f then f else f + 1)"

text \<open>
  For \<open>x > 0\<close>, the nearest multiple of the spacing of binary64 values around \<open>x\<close>:
  53 significant bits, and the fixed spacing \<open>2^-1074\<close> of the subnormal range.
\<close>

definition round_magnitude :: "rat \<Rightarrow> rat" where
  "round_magnitude x =
     (let q = pow2 (max (floor_log2 x - 52) (- 1074))
      in of_int (round_half_even (x / q)) * q)"

text \<open>Rounding to binary64; a result of magnitude \<open>2^1024\<close> or more is an infinity.\<close>

definition round_double :: "rat \<Rightarrow> double" where
  "round_double x =
     (if x = 0 then Finite 0
      else let m = round_magnitude \<bar>x\<bar>
           in if pow2 1024 \<le> m then (if 0 < x then PosInf else NegInf)
              else Finite (if 0 < x then m else - m))"

fun fl_neg :: "double \<Rightarrow> double" where
  "fl_neg (Finite a) = Finite (- a)"
| "fl_neg PosInf = NegInf"
| "fl_neg NegInf = PosInf"
| "fl_neg NaN = NaN"

text \<open>\<open>a + b\<close>, \<open>a - b\<close> and \<open>a < b\<close> on floats.\<close>

fun fl_add :: "double \<Rightarrow> double \<Rightarrow> double" where
  "fl_add (Finite a) (Finite b) = round_double (a + b)"
| "fl_add NaN _ = NaN"
| "fl_add _ NaN = NaN"
| "fl_add PosInf NegInf = NaN"
| "fl_add NegInf PosInf = NaN"
| "fl_add PosInf _ = PosInf"
| "fl_add _ PosInf = PosInf"
| "fl_add NegInf _ = NegInf"
| "fl_add _ NegInf = NegInf"

definition fl_sub :: "double \<Rightarrow> double \<Rightarrow> double" where
  "fl_sub a b = fl_add a (fl_neg b)"

fun fl_less :: "double \<Rightarrow> double \<Rightarrow> bool" where
  "fl_less (Finite a) (Finite b) = (a < b)"
| "fl_less NaN _ = False"
| "fl_less _ NaN = False"
| "fl_less _ NegInf = False"
| "fl_less NegInf _ = True"
| "fl_less PosInf _ = False"
| "fl_less _ PosInf = True"

subsection \<open>Values\<close>

text \<open>What \<open>json.loads\<close> (or any caller) can hand to the functions below.\<close>

datatype pyval =
    PNone
  | PBool bool
  | PInt int
  | PFloat double
  | PStr ustring
  | PList "pyval list"
  | PDict "(ustring \<times> pyval) list"

datatype exn =
    AttributeError
  | TypeError
  | ValueError
  | OverflowError
  | UnicodeEncodeError
  | UnicodeDecodeError

text \<open>
  The parts of the Python runtime that are taken as parameters: \<open>str.lower\<close> outside
  ASCII (the Unicode case mapping) and \<open>float\<close> applied to a string (\<open>None\<close> stands for
  the \<open>ValueError\<close> it raises on a string that is not a number; \<open>'nan'\<close> and \<open>'inf'\<close>
  are numbers).
\<close>

record runtime =
  unicode_lower :: "ustring \<Rightarrow> ustring"
  parse_float :: "ustring \<Rightarrow> double option"

text \<open>A runtime for inputs that are ASCII text with numeric time stamps.\<close>

definition ascii_runtime :: runtime where
  "ascii_runtime = \<lparr> unicode_lower = id, parse_float = Map.empty \<rparr>"

text \<open>\<open>not v\<close> is \<open>\<not> truthy v\<close>.\<close>

fun truthy :: "pyval \<Rightarrow> bool" where
  "truthy PNone = False"
| "truthy (PBool b) = b"
| "truthy (PInt i) = (i \<noteq> 0)"
| "truthy (PFloat d) = (d \<noteq> Finite 0)"
| "truthy (PStr s) = (s \<noteq> [])"
| "truthy (PList xs) = (xs \<noteq> [])"
| "truthy (PDict kvs) = (kvs \<noteq> [])"

text \<open>\<open>d.get(k, dflt)\<close>: only a dict has the method.\<close>

fun py_get :: "pyval \<Rightarrow> ustring \<Rightarrow> pyval \<Rightarrow> exn + pyval" where
  "py_get (PDict kvs) k dflt = Inr (case map_of kvs k of None \<Rightarrow> dflt | Some v \<Rightarrow> v)"
| "py_get _ k dflt = Inl AttributeError"

text \<open>\<open>for x in v\<close>: a list gives its elements, a string its characters, a dict its keys.\<close>

fun py_iter :: "pyval \<Rightarrow> exn + pyval list" where
  "py_iter (PList xs) = Inr xs"
| "py_iter (PStr s) = Inr (map (\<lambda>c. PStr [c]) s)"
| "py_iter (PDict kvs) = Inr (map PStr (remdups (map fst kvs)))"
| "py_iter _ = Inl TypeError"

text \<open>
  \<open>float(i)\<close> of an integer: the nearest float, and \<open>OverflowError\<close> where that would be
  an infinity.
\<close>

definition float_of_int :: "int \<Rightarrow> exn + double" where
  "float_of_int i =
     (case round_double (of_int i) of
        Finite r \<Rightarrow> Inr (Finite r)
      | _ \<Rightarrow> Inl OverflowError)"

text \<open>\<open>float(v)\<close>.\<close>

fun py_float :: "runtime \<Rightarrow> pyval \<Rightarrow> exn + double" where
  "py_float rt (PBool b) = Inr (Finite (if b then 1 else 0))"
| "py_float rt (PInt i) = float_of_int i"
| "py_float rt (PFloat d) = Inr d"
| "py_float rt (PStr s) = (case parse_float rt s of None \<Rightarrow> Inl ValueError | Some d \<Rightarrow> Inr d)"
| "py_float rt _ = Inl TypeError"

text \<open>
  \<open>print(s)\<close> writes to the standard output, which is UTF-8 and strict: a string with
  a lone surrogate cannot be encoded. The fixed parts of the messages and the numbers
  in them can always be printed, so only the printed input text is modelled.
\<close>

definition printable :: "ustring \<Rightarrow> bool" where
  "printable s \<longleftrightarrow> list_all (\<lambda>c. c < 55296 \<or> 57343 < c) s"

definition py_print :: "ustring \<Rightarrow> exn + unit" where
  "py_print s = (if printable s then Inr () else Inl UnicodeEncodeError)"

subsection \<open>String methods\<close>

text \<open>The characters \<open>str.strip()\<close> and \<open>str.split()\<close> treat as whitespace.\<close>

definition is_space :: "nat \<Rightarrow> bool" where
  "is_space c \<longleftrightarrow>
     (9 \<le> c \<and> c \<le> 13) \<or> (28 \<le> c \<and> c \<le> 32) \<or> c = 133 \<or> c = 160 \<or> c = 5760 \<or>
     (8192 \<le> c \<and> c \<le> 8202) \<or> c = 8232 \<or> c = 8233 \<or> c = 8239 \<or> c = 8287 \<or> c = 12288"

definition strip_chars :: "(nat \<Rightarrow> bool) \<Rightarrow> ustring \<Rightarrow> ustring" where
  "strip_chars p s = rev (dropWhile p (rev (dropWhile p s)))"

definition strip :: "ustring \<Rightarrow> ustring" where
  "strip s = strip_chars is_space s"

text \<open>\<open>s.strip('.,!?;:')\<close>\<close>

definition strip_punct :: "ustring \<Rightarrow> ustring" where
  "strip_punct s = strip_chars (\<lambda>c. c \<in> set (ustr ''.,!?;:'')) s"

text \<open>\<open>s.split(sep)\<close> for a one-character separator: always at least one piece.\<close>

fun split_on :: "nat \<Rightarrow> ustring \<Rightarrow> ustring list" where
  "split_on sep [] = [[]]"
| "split_on sep (c # cs) =
     (if c = sep then [] # split_on sep cs
      else (case split_on sep cs of [] \<Rightarrow> [[c]] | p # ps \<Rightarrow> (c # p) # ps))"

text \<open>\<open>s.split()\<close>: the maximal runs of non-whitespace; \<open>cur\<close> is the run being read.\<close>

fun split_ws_from :: "ustring \<Rightarrow> ustring \<Rightarrow> ustring list" where
  "split_ws_from cur [] = (if cur = [] then [] else [cur])"
| "split_ws_from cur (c # cs) =
     (if is_space c then (if cur = [] then [] else [cur]) @ split_ws_from [] cs
      else split_ws_from (cur @ [c]) cs)"

definition split_ws :: "ustring \<Rightarrow> ustring list" where
  "split_ws s = split_ws_from [] s"

text \<open>\<open>sep.join(ws)\<close>\<close>

fun join_with :: "ustring \<Rightarrow> ustring list \<Rightarrow> ustring" where
  "join_with sep [] = []"
| "join_with sep [w] = w"
| "join_with sep (w # ws) = w @ sep @ join_with sep ws"

text \<open>\<open>' '.join(ws)\<close>\<close>

fun join_sp :: "ustring list \<Rightarrow> ustring" where
  "join_sp [] = []"
| "join_sp [w] = w"
| "join_sp (w # ws) = w @ 32 # join_sp ws"

definition ascii_lower :: "nat \<Rightarrow> nat" where
  "ascii_lower c = (if 65 \<le> c \<and> c \<le> 90 then c + 32 else c)"

text \<open>\<open>s.lower()\<close>: on ASCII text only the letters A to Z change.\<close>

definition lower :: "runtime \<Rightarrow> ustring \<Rightarrow> ustring" where
  "lower rt s = (if list_all (\<lambda>c. c < 128) s then map ascii_lower s else unicode_lower rt s)"

text \<open>\<open>s.replace('\n', ' ')\<close>\<close>

definition replace_newlines :: "ustring \<Rightarrow> ustring" where
  "replace_newlines s = map (\<lambda>c. if c = 10 then 32 else c) s"

text \<open>\<open>v.strip()\<close> and \<open>v.split('\n')\<close> on a value: only a string has the methods.\<close>

fun py_strip :: "pyval \<Rightarrow> exn + ustring" where
  "py_strip (PStr s) = Inr (strip s)"
| "py_strip _ = Inl AttributeError"

fun py_split_lines :: "pyval \<Rightarrow> exn + ustring list" where
  "py_split_lines (PStr s) = Inr (split_on 10 s)"
| "py_split_lines _ = Inl AttributeError"

section \<open>Lyric lines and word tokens\<close>

definition structural_markers :: "ustring list" where
  "structural_markers = map ustr
     [''intro'', ''couplet'', ''verse'', ''chorus'', ''refrain'', ''bridge'',
      ''outro'', ''pre-chorus'', ''post-chorus'', ''interlude'']"

type_synonym segment = "double \<times> double \<times> ustring"

record token =
  tok_word :: ustring
  tok_start :: double
  tok_end :: double

text \<open>The lines kept by the top-level fallback (source lines 206 to 223).\<close>

definition fallback_lyrics_lines :: "runtime \<Rightarrow> ustring list \<Rightarrow> ustring list" where
  "fallback_lyrics_lines rt raw =
     (let lines = map strip (filter (\<lambda>line. strip line \<noteq> []) raw)
      in map strip
           (filter (\<lambda>line.
              \<not> list_ex (\<lambda>marker. prefix marker (strip (lower rt line))) structural_markers \<and>
              length (strip line) > 3) lines))"

text \<open>
  Three seconds for each line, counted from zero (source lines 228 to 233):
  \<open>(float(i * 3), float((i + 1) * 3), line)\<close>.
\<close>

fun estimated_segments :: "nat \<Rightarrow> ustring list \<Rightarrow> exn + segment list" where
  "estimated_segments i [] = Inr []"
| "estimated_segments i (line # rest) =
     (case float_of_int (int (i * 3)) of
        Inl e \<Rightarrow> Inl e
      | Inr start_time \<Rightarrow>
          (case float_of_int (int ((i + 1) * 3)) of
             Inl e \<Rightarrow> Inl e
           | Inr end_time \<Rightarrow>
               (case estimated_segments (i + 1) rest of
                  Inl e \<Rightarrow> Inl e
                | Inr segments \<Rightarrow> Inr ((start_time, end_time, line) # segments))))"

text \<open>The lines kept by the alignment path (source lines 300 to 313).\<close>

definition lyrics_lines_of :: "runtime \<Rightarrow> ustring list \<Rightarrow> ustring list" where
  "lyrics_lines_of rt raw =
     filter (\<lambda>line.
        \<not> list_ex (\<lambda>marker. prefix marker (lower rt line) \<or> lower rt line = marker)
            structural_markers \<and>
        length line > 3)
       (filter (\<lambda>line. line \<noteq> []) (map strip raw))"

text \<open>
  One record of \<open>alignedWords\<close> (source lines 257 to 283): \<open>Inr None\<close> is \<open>continue\<close>
  or a record that is not appended, \<open>Inr (Some t)\<close> the token appended to \<open>clean_words\<close>.
\<close>

definition clean_word :: "runtime \<Rightarrow> pyval \<Rightarrow> exn + token option" where
  "clean_word rt word_data =
     (case py_get word_data (ustr ''success'') (PBool True) of
        Inl e \<Rightarrow> Inl e
      | Inr success \<Rightarrow>
          if \<not> truthy success then Inr None
          else
            (case py_get word_data (ustr ''word'') (PStr []) of
               Inl e \<Rightarrow> Inl e
             | Inr w \<Rightarrow>
                 (case py_strip w of
                    Inl e \<Rightarrow> Inl e
                  | Inr word_text0 \<Rightarrow>
                      if word_text0 = [] then Inr None
                      else
                        let word_text = strip (replace_newlines word_text0);
                            word_lower = strip (lower rt word_text);
                            is_structural =
                              list_ex (\<lambda>marker. prefix marker word_lower \<or> word_lower = marker)
                                structural_markers
                        in if \<not> is_structural \<and> length word_text > 0 then
                             (case py_get word_data (ustr ''startS'') (PInt 0) of
                                Inl e \<Rightarrow> Inl e
                              | Inr start_s \<Rightarrow>
                                  (case py_get word_data (ustr ''endS'') (PInt 0) of
                                     Inl e \<Rightarrow> Inl e
                                   | Inr end_s \<Rightarrow>
                                       (case py_float rt start_s of
                                          Inl e \<Rightarrow> Inl e
                                        | Inr s \<Rightarrow>
                                            (case py_float rt end_s of
                                               Inl e \<Rightarrow> Inl e
                                             | Inr e \<Rightarrow>
                                                 Inr (Some \<lparr> tok_word = word_text,
                                                              tok_start = s, tok_end = e \<rparr>)))))
                           else Inr None)))"

fun clean_words_loop :: "runtime \<Rightarrow> pyval list \<Rightarrow> token list \<Rightarrow> exn + token list" where
  "clean_words_loop rt [] clean_words = Inr clean_words"
| "clean_words_loop rt (word_data # rest) clean_words =
     (case clean_word rt word_data of
        Inl e \<Rightarrow> Inl e
      | Inr None \<Rightarrow> clean_words_loop rt rest clean_words
      | Inr (Some t) \<Rightarrow> clean_words_loop rt rest (clean_words @ [t]))"

section \<open>Word-to-line matching\<close>

text \<open>The test of source lines 341 and 342; \<open>a in b\<close> on strings is \<open>sublist a b\<close>.\<close>

definition word_matches :: "ustring \<Rightarrow> ustring \<Rightarrow> bool" where
  "word_matches word_text line_word \<longleftrightarrow>
     sublist word_text line_word \<or> sublist line_word word_text \<or> word_text = line_word"

text \<open>
  The \<open>while\<close> loop of source lines 334 to 351, returning
  \<open>(line_words, temp_word_index, matched_words)\<close>.
\<close>

function match_loop ::
  "runtime \<Rightarrow> token list \<Rightarrow> ustring list \<Rightarrow> nat \<Rightarrow> nat \<Rightarrow> nat \<Rightarrow> token list \<Rightarrow>
   token list \<times> nat \<times> nat" where
  "match_loop rt clean_words line_words_text word_index temp_word_index matched_words line_words =
     (if temp_word_index < length clean_words \<and> matched_words < length line_words_text then
        let word_obj = clean_words ! temp_word_index;
            word_text = strip_punct (lower rt (tok_word word_obj));
            hit = list_ex (word_matches word_text) (drop matched_words line_words_text);
            line_words' = (if hit then line_words @ [word_obj] else line_words);
            matched_words' = (if hit then matched_words + 1 else matched_words);
            temp_word_index' = temp_word_index + 1
        in if temp_word_index' - word_index > length line_words_text * 3
           then (line_words', temp_word_index', matched_words')
           else match_loop rt clean_words line_words_text word_index temp_word_index'
                  matched_words' line_words'
      else (line_words, temp_word_index, matched_words))"
  by pat_completeness auto
termination
  by (relation "measure (\<lambda>(rt, cw, lwt, wi, twi, m, lw). length cw - twi)") auto

declare match_loop.simps [simp del]

text \<open>\<open>xs[i:j]\<close> for \<open>0 \<le> i \<le> j\<close>\<close>

definition slice :: "'a list \<Rightarrow> nat \<Rightarrow> nat \<Rightarrow> 'a list" where
  "slice xs i j = take (j - i) (drop i xs)"

text \<open>
  The share of the sequential distribution (source lines 356 to 361).
\<close>

definition words_for_this_line :: "nat \<Rightarrow> nat \<Rightarrow> nat \<Rightarrow> nat" where
  "words_for_this_line n_words n_lines line_idx =
     (let words_per_line = max 1 (n_words div n_lines);
          remaining_words = n_words mod n_lines
      in if line_idx < remaining_words then words_per_line + 1 else words_per_line)"

text \<open>
  The acceptance test \<open>len(line_words) < len(line_words_text) * 0.3\<close>. The right-hand side
  is a float product; for counts below \<open>2^53\<close> the comparison agrees with the exact one,
  \<open>10 * len(line_words) < 3 * len(line_words_text)\<close>.
\<close>

definition too_few_matches :: "nat \<Rightarrow> nat \<Rightarrow> bool" where
  "too_few_matches n_matched n_target \<longleftrightarrow> 10 * n_matched < 3 * n_target"

text \<open>
  The words given to one line and the cursor after it (source lines 327 to 369):
  \<open>(line_words, word_index)\<close>.
\<close>

definition assign_words ::
  "runtime \<Rightarrow> token list \<Rightarrow> nat \<Rightarrow> nat \<Rightarrow> ustring \<Rightarrow> nat \<Rightarrow> token list \<times> nat" where
  "assign_words rt clean_words n_lines line_idx line_text word_index =
     (let line_words_text = split_ws (lower rt line_text);
          (line_words, temp_word_index, matched_words) =
             match_loop rt clean_words line_words_text word_index word_index 0 []
      in if too_few_matches (length line_words) (length line_words_text) then
           let k = words_for_this_line (length clean_words) n_lines line_idx
           in (slice clean_words word_index (word_index + k), word_index + k)
         else (line_words, temp_word_index))"

text \<open>
  The words shown in the message of source lines 381 to 386: the first three words of
  the line, and dots when there are more.
\<close>

definition word_preview :: "token list \<Rightarrow> ustring" where
  "word_preview line_words =
     join_with (ustr '', '') (map tok_word (take 3 line_words)) @
     (if length line_words > 3 then ustr ''...'' else [])"

text \<open>
  The segment of one line (source lines 371 to 397). A line with words has its segment
  printed with the preview of its words; a line without words starts where the last
  segment ends, or at \<open>float(line_idx * 3)\<close>.
\<close>

definition line_segment ::
  "segment list \<Rightarrow> nat \<Rightarrow> ustring \<Rightarrow> token list \<Rightarrow> exn + segment" where
  "line_segment segments line_idx line_text line_words =
     (if line_words \<noteq> [] then
        let start_time = tok_start (hd line_words);
            end_time = tok_end (last line_words);
            end_time' = (if fl_less (fl_sub end_time start_time) (Finite 2)
                         then fl_add start_time (Finite 2) else end_time)
        in (case py_print (word_preview line_words) of
              Inl e \<Rightarrow> Inl e
            | Inr u \<Rightarrow> Inr (start_time, end_time', line_text))
      else
        (case (if segments \<noteq> [] then Inr (fst (snd (last segments)))
               else float_of_int (int (line_idx * 3))) of
           Inl e \<Rightarrow> Inl e
         | Inr start_time \<Rightarrow> Inr (start_time, fl_add start_time (Finite 3), line_text)))"

text \<open>The \<open>for\<close> loop over the enumerated lines (source lines 325 to 397).\<close>

fun align_loop ::
  "runtime \<Rightarrow> token list \<Rightarrow> nat \<Rightarrow> nat \<Rightarrow> ustring list \<Rightarrow> segment list \<Rightarrow> nat \<Rightarrow>
   exn + segment list" where
  "align_loop rt clean_words n_lines line_idx [] segments word_index = Inr segments"
| "align_loop rt clean_words n_lines line_idx (line_text # rest) segments word_index =
     (let (line_words, word_index') =
            assign_words rt clean_words n_lines line_idx line_text word_index
      in (case line_segment segments line_idx line_text line_words of
            Inl e \<Rightarrow> Inl e
          | Inr segment \<Rightarrow>
              align_loop rt clean_words n_lines (line_idx + 1) rest
                (segments @ [segment]) word_index'))"

section \<open>\<open>parse_lyrics_timing\<close>\<close>

text \<open>The test of source line 198.\<close>

definition no_data :: "pyval \<Rightarrow> exn + bool" where
  "no_data lyrics_data =
     (if \<not> truthy lyrics_data then Inr True
      else (case py_get lyrics_data (ustr ''data'') PNone of
              Inl e \<Rightarrow> Inl e
            | Inr v \<Rightarrow> Inr (v = PNone)))"

text \<open>
  Source lines 199 to 201: the message of the API is printed. A string is printed as
  it is; a number, a truth value or null is printed in ASCII, and a list or a dict is
  printed through the \<open>repr\<close> of its elements, which escapes what cannot be encoded.
\<close>

definition print_api_error :: "pyval \<Rightarrow> exn + unit" where
  "print_api_error lyrics_data =
     (if truthy lyrics_data then
        (case py_get lyrics_data (ustr ''msg'') (PStr (ustr ''Unknown error'')) of
           Inl e \<Rightarrow> Inl e
         | Inr (PStr msg) \<Rightarrow> py_print msg
         | Inr other \<Rightarrow> Inr ())
      else Inr ())"

text \<open>Source lines 199 to 240.\<close>

definition top_level_fallback :: "runtime \<Rightarrow> pyval \<Rightarrow> pyval \<Rightarrow> exn + segment list" where
  "top_level_fallback rt lyrics_data original_lyrics =
     (case print_api_error lyrics_data of
        Inl e \<Rightarrow> Inl e
      | Inr u \<Rightarrow>
          if truthy original_lyrics then
            (case py_split_lines original_lyrics of
               Inl e \<Rightarrow> Inl e
             | Inr raw \<Rightarrow>
                 let lyrics_lines = fallback_lyrics_lines rt raw
                 in if lyrics_lines \<noteq> [] then estimated_segments 0 lyrics_lines else Inr [])
          else Inr [])"

text \<open>Source lines 292 and 293: the lyrics the lines are read from.\<close>

definition effective_lyrics :: "pyval \<Rightarrow> pyval \<Rightarrow> exn + pyval" where
  "effective_lyrics lyrics_data original_lyrics =
     (if \<not> truthy original_lyrics then
        (case py_get lyrics_data (ustr ''data'') (PDict []) of
           Inl e \<Rightarrow> Inl e
         | Inr data \<Rightarrow> py_get data (ustr ''lyrics'') (PStr []))
      else Inr original_lyrics)"

text \<open>Source lines 242 to 401.\<close>

definition aligned_path :: "runtime \<Rightarrow> pyval \<Rightarrow> pyval \<Rightarrow> exn + segment list" where
  "aligned_path rt lyrics_data original_lyrics =
     (case py_get lyrics_data (ustr ''data'') (PDict []) of
        Inl e \<Rightarrow> Inl e
      | Inr data \<Rightarrow>
     (case py_get data (ustr ''alignedWords'') (PList []) of
        Inl e \<Rightarrow> Inl e
      | Inr aligned_words \<Rightarrow>
     if \<not> truthy aligned_words then Inr []
     else
     (case py_iter aligned_words of
        Inl e \<Rightarrow> Inl e
      | Inr records \<Rightarrow>
     (case clean_words_loop rt records [] of
        Inl e \<Rightarrow> Inl e
      | Inr clean_words \<Rightarrow>
     if clean_words = [] then Inr []
     else
     (case effective_lyrics lyrics_data original_lyrics of
        Inl e \<Rightarrow> Inl e
      | Inr lyrics \<Rightarrow>
     if \<not> truthy lyrics then Inr []
     else
     (case py_split_lines lyrics of
        Inl e \<Rightarrow> Inl e
      | Inr raw \<Rightarrow>
          let lyrics_lines = lyrics_lines_of rt raw
          in if lyrics_lines = [] then Inr []
             else align_loop rt clean_words (length lyrics_lines) 0 lyrics_lines [] 0))))))"

text \<open>The body of the \<open>try\<close> block.\<close>

definition parse_body :: "runtime \<Rightarrow> pyval \<Rightarrow> pyval \<Rightarrow> exn + segment list" where
  "parse_body rt lyrics_data original_lyrics =
     (case no_data lyrics_data of
        Inl e \<Rightarrow> Inl e
      | Inr True \<Rightarrow> top_level_fallback rt lyrics_data original_lyrics
      | Inr False \<Rightarrow> aligned_path rt lyrics_data original_lyrics)"

text \<open>
  \<open>try: ... except Exception: return []\<close> (source lines 196 and 403 to 407). The result
  is still a sum, so that "does not raise" is a statement about the value. The handler
  prints the message of the exception, which is ASCII for each exception of the body (a
  string that \<open>float\<close> or the encoder refused is quoted with its escapes), and the
  traceback goes to the standard error, which escapes what it cannot encode: the handler
  itself does not raise.
\<close>

definition parse_lyrics_timing :: "runtime \<Rightarrow> pyval \<Rightarrow> pyval \<Rightarrow> exn + segment list" where
  "parse_lyrics_timing rt lyrics_data original_lyrics =
     (case parse_body rt lyrics_data original_lyrics of
        Inl e \<Rightarrow> Inr []
      | Inr segments \<Rightarrow> Inr segments)"

text \<open>
  The per-line record of the same loop: for each line the cursor before it, the words
  given to it and the cursor after it.
\<close>

fun assignments ::
  "runtime \<Rightarrow> token list \<Rightarrow> nat \<Rightarrow> nat \<Rightarrow> ustring list \<Rightarrow> nat \<Rightarrow>
   (nat \<times> token list \<times> nat) list" where
  "assignments rt clean_words n_lines line_idx [] word_index = []"
| "assignments rt clean_words n_lines line_idx (line_text # rest) word_index =
     (let (line_words, word_index') =
            assign_words rt clean_words n_lines line_idx line_text word_index
      in (word_index, line_words, word_index') #
         assignments rt clean_words n_lines (line_idx + 1) rest word_index')"

text \<open>The segments built from such a record, line by line.\<close>

fun segments_of ::
  "nat \<Rightarrow> ustring list \<Rightarrow> (nat \<times> token list \<times> nat) list \<Rightarrow> segment list \<Rightarrow>
   exn + segment list" where
  "segments_of line_idx (line_text # rest) ((b, line_words, a) # others) segments =
     (case line_segment segments line_idx line_text line_words of
        Inl e \<Rightarrow> Inl e
      | Inr segment \<Rightarrow> segments_of (line_idx + 1) rest others (segments @ [segment]))"
| "segments_of line_idx _ _ segments = Inr segments"

text \<open>
  Consecutive lines take their words from consecutive ranges of \<open>clean_words\<close>: each
  line starts at the cursor \<open>c\<close> the line before it left, the cursor does not go back, and
  the words of the line are picked, in order, from \<open>clean_words[b:a]\<close>.
\<close>

fun ranges_chain :: "token list \<Rightarrow> nat \<Rightarrow> (nat \<times> token list \<times> nat) list \<Rightarrow> bool" where
  "ranges_chain clean_words c [] = True"
| "ranges_chain clean_words c ((b, line_words, a) # others) =
     (b = c \<and> b \<le> a \<and> subseq line_words (slice clean_words b a) \<and>
      ranges_chain clean_words a others)"

section \<open>\<open>wrap_text_intelligently\<close>\<close>

text \<open>\<open>xs[:m]\<close> and \<open>xs[m:]\<close>; a negative \<open>m\<close> counts from the end.\<close>

definition py_take :: "int \<Rightarrow> 'a list \<Rightarrow> 'a list" where
  "py_take m xs = (if m < 0 then take (nat (int (length xs) + m)) xs else take (nat m) xs)"

definition py_drop :: "int \<Rightarrow> 'a list \<Rightarrow> 'a list" where
  "py_drop m xs = (if m < 0 then drop (nat (int (length xs) + m)) xs else drop (nat m) xs)"

fun find_split :: "nat \<Rightarrow> nat \<Rightarrow> nat \<Rightarrow> ustring list \<Rightarrow> nat option" where
  "find_split mid_point i current_length [] = None"
| "find_split mid_point i current_length (word # rest) =
     (let current_length' = current_length + (length word + (if i > 0 then 1 else 0))
      in if current_length' \<ge> mid_point then Some i
         else find_split mid_point (i + 1) current_length' rest)"

definition wrap_text_intelligently :: "ustring \<Rightarrow> int \<Rightarrow> ustring list" where
  "wrap_text_intelligently text max_chars_per_line =
     (if int (length text) \<le> max_chars_per_line then [text]
      else
        let words = split_ws text
        in if length words \<le> 1
           then [py_take max_chars_per_line text, py_drop max_chars_per_line text]
           else
             let mid_point = length text div 2;
                 best_split = (case find_split mid_point 0 0 words of
                                 None \<Rightarrow> length words div 2
                               | Some i \<Rightarrow> i);
                 line2 = join_sp (drop best_split words);
                 best_split' = (if int (length line2) > max_chars_per_line \<and> best_split > 1
                                then best_split - 1 else best_split);
                 line1' = join_sp (take best_split' words);
                 line2' = join_sp (drop best_split' words)
             in if line2' \<noteq> [] then [line1', line2'] else [line1'])"

section \<open>\<open>fix_double_utf8_encoding\<close>\<close>

text \<open>
  \<open>bytes.decode('utf-8')\<close>: the strict decoder, which refuses overlong forms,
  surrogates and code points above \<open>0x10FFFF\<close>. \<open>None\<close> is \<open>UnicodeDecodeError\<close>.
\<close>

definition is_cont :: "nat \<Rightarrow> bool" where
  "is_cont b \<longleftrightarrow> 128 \<le> b \<and> b \<le> 191"

fun utf8_decode :: "nat list \<Rightarrow> ustring option" where
  "utf8_decode [] = Some []"
| "utf8_decode (b0 # bs) =
     (if b0 < 128 then map_option ((#) b0) (utf8_decode bs)
      else if 194 \<le> b0 \<and> b0 \<le> 223 then
        (case bs of
           b1 # r \<Rightarrow>
             if is_cont b1
             then map_option ((#) ((b0 - 192) * 64 + (b1 - 128))) (utf8_decode r)
             else None
         | _ \<Rightarrow> None)
      else if 224 \<le> b0 \<and> b0 \<le> 239 then
        (case bs of
           b1 # b2 # r \<Rightarrow>
             if (if b0 = 224 then 160 else 128) \<le> b1 \<and> b1 \<le> (if b0 = 237 then 159 else 191)
                \<and> is_cont b2
             then map_option ((#) ((b0 - 224) * 4096 + (b1 - 128) * 64 + (b2 - 128)))
                    (utf8_decode r)
             else None
         | _ \<Rightarrow> None)
      else if 240 \<le> b0 \<and> b0 \<le> 244 then
        (case bs of
           b1 # b2 # b3 # r \<Rightarrow>
             if (if b0 = 240 then 144 else 128) \<le> b1 \<and> b1 \<le> (if b0 = 244 then 143 else 191)
                \<and> is_cont b2 \<and> is_cont b3
             then map_option
                    ((#) ((b0 - 240) * 262144 + (b1 - 128) * 4096 + (b2 - 128) * 64 + (b3 - 128)))
                    (utf8_decode r)
             else None
         | _ \<Rightarrow> None)
      else None)"

definition encode_latin1 :: "ustring \<Rightarrow> exn + nat list" where
  "encode_latin1 s = (if list_all (\<lambda>c. c < 256) s then Inr s else Inl UnicodeEncodeError)"

definition decode_utf8 :: "nat list \<Rightarrow> exn + ustring" where
  "decode_utf8 bs = (case utf8_decode bs of None \<Rightarrow> Inl UnicodeDecodeError | Some s \<Rightarrow> Inr s)"

function replace :: "ustring \<Rightarrow> ustring \<Rightarrow> ustring \<Rightarrow> ustring" where
  "replace old new s =
     (if old = [] then new @ concat (map (\<lambda>c. c # new) s)
      else if s = [] then []
      else if prefix old s then new @ replace old new (drop (length old) s)
      else hd s # replace old new (tl s))"
  by pat_completeness auto
termination
  by (relation "measure (\<lambda>(old, new, s). length s)") (auto simp: neq_Nil_conv)

declare replace.simps [simp del]

definition fixes_table :: "(ustring \<times> ustring) list" where
  "fixes_table =
     [([195, 161], [225]), ([195, 169], [233]), ([195, 173], [237]), ([195, 179], [243]),
      ([195, 186], [250]),
      ([195, 32], [224]), ([195, 168], [232]), ([195, 172], [236]), ([195, 178], [242]),
      ([195, 185], [249]),
      ([195, 162], [226]), ([195, 170], [234]), ([195, 174], [238]), ([195, 180], [244]),
      ([195, 187], [251]),
      ([195, 163], [227]), ([195, 177], [241]), ([195, 167], [231]), ([195, 164], [228]),
      ([195, 182], [246]),
      ([195, 188], [252]), ([195, 191], [255]), ([195, 8230], [197]), ([195, 8224], [198]),
      ([195, 732], [216])]"

definition apply_fixes :: "ustring \<Rightarrow> ustring" where
  "apply_fixes text = foldl (\<lambda>result (bad, good). replace bad good result) text fixes_table"

definition fix_double_utf8_encoding :: "ustring \<Rightarrow> exn + ustring" where
  "fix_double_utf8_encoding text =
     (if text = [] then Inr text
      else
        (case (case encode_latin1 text of Inl e \<Rightarrow> Inl e | Inr bs \<Rightarrow> decode_utf8 bs) of
           Inr corrected \<Rightarrow> Inr corrected
         | Inl e \<Rightarrow>
             if e = UnicodeEncodeError \<or> e = UnicodeDecodeError then Inr (apply_fixes text)
             else Inl e))"

text \<open>
  The same function on any value it may be handed (source lines 1078 to 1085):
  \<open>not text\<close> returns a falsy value as it is, and only a string has \<open>encode\<close>.
\<close>

fun fix_double_utf8_encoding_value :: "pyval \<Rightarrow> exn + pyval" where
  "fix_double_utf8_encoding_value (PStr text) =
     (case fix_double_utf8_encoding text of
        Inl e \<Rightarrow> Inl e
      | Inr corrected \<Rightarrow> Inr (PStr corrected))"
| "fix_double_utf8_encoding_value text = (if truthy text then Inl AttributeError else Inr text)"

section \<open>Notions the properties are stated with\<close>

text \<open>
  The lyric lines that survive the filtering, read from the lyrics the code reads them
  from: the top-level fallback filters \<open>original_lyrics\<close>, the alignment path filters
  \<open>original_lyrics\<close> or, when that is empty, \<open>data.lyrics\<close>.
\<close>

definition surviving_lines :: "runtime \<Rightarrow> pyval \<Rightarrow> pyval \<Rightarrow> exn + ustring list" where
  "surviving_lines rt lyrics_data original_lyrics =
     (case no_data lyrics_data of
        Inl e \<Rightarrow> Inl e
      | Inr True \<Rightarrow>
          (case py_split_lines original_lyrics of
             Inl e \<Rightarrow> Inl e
           | Inr raw \<Rightarrow> Inr (fallback_lyrics_lines rt raw))
      | Inr False \<Rightarrow>
          (case effective_lyrics lyrics_data original_lyrics of
             Inl e \<Rightarrow> Inl e
           | Inr lyrics \<Rightarrow>
               (case py_split_lines lyrics of
                  Inl e \<Rightarrow> Inl e
                | Inr raw \<Rightarrow> Inr (lyrics_lines_of rt raw))))"



text \<open>
  The share of a low-confidence line in the words of section 4.3, step 5, of the
  specification: the remaining tokens split evenly over the remaining lines, the extra
  token of a remainder going to the earliest of them, which is the current line.
\<close>

definition spec_fallback_share :: "nat \<Rightarrow> nat \<Rightarrow> nat" where
  "spec_fallback_share remaining_tokens remaining_lines =
     remaining_tokens div remaining_lines +
     (if remaining_tokens mod remaining_lines > 0 then 1 else 0)"

section \<open>Concrete inputs\<close>

text \<open>
  A word record as the API sends it, and a response holding such records. A decimal
  number of the JSON text is read as the nearest float.
\<close>

definition word_record :: "string \<Rightarrow> rat \<Rightarrow> rat \<Rightarrow> pyval" where
  "word_record w s e =
     PDict [(ustr ''word'', PStr (ustr w)), (ustr ''startS'', PFloat (round_double s)),
            (ustr ''endS'', PFloat (round_double e)), (ustr ''success'', PBool True)]"

definition response :: "pyval list \<Rightarrow> pyval" where
  "response records = PDict [(ustr ''data'', PDict [(ustr ''alignedWords'', PList records)])]"

text \<open>Scenario A of the specification.\<close>

definition scenario_a_response :: pyval where
  "scenario_a_response =
     response [word_record ''Hello'' 0 (1/2), word_record ''world'' (1/2) 1,
               word_record ''Goodbye'' 1 (8/5), word_record ''now'' (8/5) 2]"

definition scenario_a_lyrics :: pyval where
  "scenario_a_lyrics = PStr (ustr ''Hello world'' @ [10] @ ustr ''Goodbye now'')"

text \<open>Six cleaned words of which only the first two occur in the lyrics.\<close>

definition mk_token :: "string \<Rightarrow> rat \<Rightarrow> rat \<Rightarrow> token" where
  "mk_token w s e = \<lparr> tok_word = ustr w, tok_start = Finite s, tok_end = Finite e \<rparr>"

definition six_tokens :: "token list" where
  "six_tokens = [mk_token ''Hello'' 0 1, mk_token ''world'' 1 2, mk_token ''aaa'' 2 3,
                 mk_token ''bbb'' 3 4, mk_token ''ccc'' 4 5, mk_token ''ddd'' 5 6]"


definition scenario_b_lyrics :: ustring where
  "scenario_b_lyrics = ustr ''Verse'' @ [10] @ ustr ''Hello world'' @ [10] @ ustr ''Goodbye now''"

text \<open>Scenario C of the specification: a payload with no aligned words.\<close>

definition scenario_c_response :: pyval where
  "scenario_c_response = response []"

text \<open>A word record that has no \<open>success\<close> field.\<close>

definition bare_word_record :: pyval where
  "bare_word_record =
     PDict [(ustr ''word'', PStr (ustr ''Hello'')), (ustr ''startS'', PInt 0),
            (ustr ''endS'', PFloat (Finite (1/2)))]"

text \<open>The same record with \<open>success\<close> null.\<close>

definition null_success_record :: pyval where
  "null_success_record =
     PDict [(ustr ''word'', PStr (ustr ''Hello'')), (ustr ''startS'', PInt 0),
            (ustr ''endS'', PFloat (Finite (1/2))), (ustr ''success'', PNone)]"

text \<open>A response without data whose message is a lone surrogate, \<open>"\\ud800"\<close> in JSON.\<close>

definition unprintable_msg_response :: pyval where
  "unprintable_msg_response = PDict [(ustr ''data'', PNone), (ustr ''msg'', PStr [55296])]"


section \<open>Fixed points of the normalizer\<close>

text \<open>
  A text can be re-decoded when the first attempt of the normalizer succeeds on it: it
  encodes as Latin-1 and the bytes are valid UTF-8.
\<close>

definition reinterpretable :: "ustring \<Rightarrow> bool" where
  "reinterpretable t \<longleftrightarrow> list_all (\<lambda>c. c < 256) t \<and> utf8_decode t \<noteq> None"

text \<open>Some mis-decoded sequence of the replacement table occurs in the text.\<close>

definition has_fix_key :: "ustring \<Rightarrow> bool" where
  "has_fix_key t \<longleftrightarrow> list_ex (\<lambda>(bad, good). sublist bad t) fixes_table"

text \<open>
  A settled text gives the normalizer nothing to do: it is ASCII only, or it can neither
  be re-decoded nor holds a sequence of the table.
\<close>

definition settled :: "ustring \<Rightarrow> bool" where
  "settled t \<longleftrightarrow> list_all (\<lambda>c. c < 128) t \<or> (\<not> reinterpretable t \<and> \<not> has_fix_key t)"

section \<open>Evaluation on concrete inputs\<close>

lemma floor_rat_numeral_divide:
  "\<lfloor>(numeral a :: rat) / numeral b\<rfloor> = numeral a div numeral b"
  "\<lfloor>(1 :: rat) / numeral b\<rfloor> = 1 div numeral b"
  using floor_divide_of_int_eq [of "numeral a" "numeral b", where ?'a = rat]
    floor_divide_of_int_eq [of 1 "numeral b", where ?'a = rat]
  by simp_all

lemmas double_eval =
  round_double_def round_magnitude_def round_half_even_def floor_log2_def pow2_def
  bit_length.simps fl_sub_def float_of_int_def Let_def floor_rat_numeral_divide

lemmas string_eval =
  ustr_def split_ws_def is_space_def lower_def ascii_lower_def strip_punct_def strip_chars_def
  strip_def replace_newlines_def word_matches_def sublist_Cons_right structural_markers_def

lemmas parse_eval =
  parse_lyrics_timing_def parse_body_def no_data_def aligned_path_def top_level_fallback_def
  effective_lyrics_def clean_word_def lyrics_lines_of_def fallback_lyrics_lines_def
  assign_words_def line_segment_def too_few_matches_def words_for_this_line_def slice_def
  match_loop.simps Let_def ascii_runtime_def print_api_error_def py_print_def printable_def
  word_preview_def

text \<open>The floats of the decimal numbers that occur in the inputs.\<close>

lemma json_numbers:
  "round_double 0 = Finite 0"
  "round_double 1 = Finite 1"
  "round_double 2 = Finite 2"
  "round_double 3 = Finite 3"
  "round_double (1 / 2) = Finite (1 / 2)"
  "round_double (8 / 5) = Finite (3602879701896397 / 2251799813685248)"
  "round_double (3 / 10) = Finite (5404319552844595 / 18014398509481984)"
  by (simp_all add: double_eval)

lemma scenario_a_records:
  "scenario_a_response =
     response
       [PDict [(ustr ''word'', PStr (ustr ''Hello'')), (ustr ''startS'', PFloat (Finite 0)),
               (ustr ''endS'', PFloat (Finite (1 / 2))), (ustr ''success'', PBool True)],
        PDict [(ustr ''word'', PStr (ustr ''world'')), (ustr ''startS'', PFloat (Finite (1 / 2))),
               (ustr ''endS'', PFloat (Finite 1)), (ustr ''success'', PBool True)],
        PDict [(ustr ''word'', PStr (ustr ''Goodbye'')), (ustr ''startS'', PFloat (Finite 1)),
               (ustr ''endS'', PFloat (Finite (3602879701896397 / 2251799813685248))),
               (ustr ''success'', PBool True)],
        PDict [(ustr ''word'', PStr (ustr ''now'')),
               (ustr ''startS'', PFloat (Finite (3602879701896397 / 2251799813685248))),
               (ustr ''endS'', PFloat (Finite 2)), (ustr ''success'', PBool True)]]"
  by (simp add: scenario_a_response_def word_record_def json_numbers)

lemma scenario_a_result:
  "parse_lyrics_timing ascii_runtime scenario_a_response scenario_a_lyrics =
     Inr [(Finite 0, Finite 2, ustr ''Hello world''), (Finite 1, Finite 3, ustr ''Goodbye now'')]"
  by (simp add: scenario_a_records scenario_a_lyrics_def response_def
        parse_eval string_eval double_eval)

lemma six_tokens_line0:
  "assign_words ascii_runtime six_tokens 2 0 (ustr ''Hello world'') 0 = (take 2 six_tokens, 2)"
  by (simp add: six_tokens_def mk_token_def parse_eval string_eval)

lemma six_tokens_line1_test:
  "too_few_matches
     (length (fst (match_loop ascii_runtime six_tokens
                     (split_ws (lower ascii_runtime (ustr ''zzzz qqqq''))) 2 2 0 [])))
     (length (split_ws (lower ascii_runtime (ustr ''zzzz qqqq''))))"
  by (simp add: six_tokens_def mk_token_def parse_eval string_eval)

lemma six_tokens_line1:
  "assign_words ascii_runtime six_tokens 2 1 (ustr ''zzzz qqqq'') 2 = (slice six_tokens 2 5, 5)"
  by (simp add: six_tokens_def mk_token_def parse_eval string_eval)




section \<open>Properties of the alignment\<close>

lemma line_segment_text:
  "line_segment segs i t lw = Inr seg \<Longrightarrow> snd (snd seg) = t"
  by (auto simp: line_segment_def Let_def split: if_splits sum.splits)

lemma align_loop_texts:
  "align_loop rt cw n i lines segs wi = Inr result \<Longrightarrow>
   map (snd \<circ> snd) result = map (snd \<circ> snd) segs @ lines"
proof (induction lines arbitrary: i segs wi)
  case Nil
  then show ?case by simp
next
  case (Cons line rest)
  obtain lw wi' where a: "assign_words rt cw n i line wi = (lw, wi')"
    by (cases "assign_words rt cw n i line wi") auto
  with Cons.prems obtain seg where seg: "line_segment segs i line lw = Inr seg"
    and rec: "align_loop rt cw n (i + 1) rest (segs @ [seg]) wi' = Inr result"
    by (auto split: sum.splits)
  from Cons.IH [OF rec] line_segment_text [OF seg] show ?case by simp
qed

lemma estimated_segments_texts:
  "estimated_segments i lines = Inr segs \<Longrightarrow> map (snd \<circ> snd) segs = lines"
  by (induction lines arbitrary: i segs) (auto split: sum.splits)

lemma top_level_fallback_texts:
  assumes "top_level_fallback rt d ol = Inr segs" "segs \<noteq> []"
  shows "\<exists>raw. py_split_lines ol = Inr raw \<and> map (snd \<circ> snd) segs = fallback_lyrics_lines rt raw"
  using assms
  by (auto simp: top_level_fallback_def Let_def estimated_segments_texts
           split: if_splits sum.splits)

lemma aligned_path_texts:
  assumes "aligned_path rt d ol = Inr segs" "segs \<noteq> []"
  shows "\<exists>lyrics raw. effective_lyrics d ol = Inr lyrics \<and> py_split_lines lyrics = Inr raw \<and>
           map (snd \<circ> snd) segs = lyrics_lines_of rt raw"
  using assms
  by (auto simp: aligned_path_def Let_def dest: align_loop_texts split: if_splits sum.splits)

text \<open>
  C1. Whenever \<open>parse_lyrics_timing\<close> returns a non-empty result, the texts of the
  segments are, in order and one for one, the surviving lyric lines themselves: segment
  \<open>i\<close> carries line \<open>i\<close> verbatim, whatever words were matched.
\<close>

theorem parse_lyrics_timing_texts:
  assumes "parse_lyrics_timing rt lyrics_data original_lyrics = Inr segments"
    and "segments \<noteq> []"
  shows "surviving_lines rt lyrics_data original_lyrics = Inr (map (snd \<circ> snd) segments)"
proof -
  from assms have body: "parse_body rt lyrics_data original_lyrics = Inr segments"
    by (auto simp: parse_lyrics_timing_def split: sum.splits)
  then obtain b where nd: "no_data lyrics_data = Inr b"
    by (auto simp: parse_body_def split: sum.splits)
  show ?thesis
  proof (cases b)
    case True
    with body nd have "top_level_fallback rt lyrics_data original_lyrics = Inr segments"
      by (simp add: parse_body_def)
    from top_level_fallback_texts [OF this assms(2)] nd True show ?thesis
      by (auto simp: surviving_lines_def)
  next
    case False
    with body nd have "aligned_path rt lyrics_data original_lyrics = Inr segments"
      by (simp add: parse_body_def)
    from aligned_path_texts [OF this assms(2)] nd False show ?thesis
      by (auto simp: surviving_lines_def)
  qed
qed

theorem parse_lyrics_timing_texts_witness:
  "parse_lyrics_timing ascii_runtime scenario_a_response scenario_a_lyrics =
     Inr [(Finite 0, Finite 2, ustr ''Hello world''), (Finite 1, Finite 3, ustr ''Goodbye now'')] \<and>
   surviving_lines ascii_runtime scenario_a_response scenario_a_lyrics =
     Inr [ustr ''Hello world'', ustr ''Goodbye now'']"
  using parse_lyrics_timing_texts [OF scenario_a_result] scenario_a_result by simp

subsection \<open>Durations\<close>

lemma bit_length_pos: "0 < n \<Longrightarrow> 0 < bit_length n"
  by (simp add: bit_length.simps [of n])

lemma bit_length_le: "n < 2 ^ k \<Longrightarrow> bit_length n \<le> k"
proof (induction k arbitrary: n)
  case 0
  then show ?case by (simp add: bit_length.simps [of 0])
next
  case (Suc k)
  show ?case
  proof (cases "n = 0")
    case True
    then show ?thesis by (simp add: bit_length.simps [of 0])
  next
    case False
    from Suc.prems have "n div 2 < 2 ^ k" by simp
    from Suc.IH [OF this] False show ?thesis by (simp add: bit_length.simps [of n])
  qed
qed

lemma round_half_even_of_int: "round_half_even (of_int z) = z"
  by (simp add: round_half_even_def)

text \<open>An integer below \<open>2^53\<close> is a float.\<close>

lemma round_double_of_nat:
  assumes "n < 2 ^ 53"
  shows "round_double (of_nat n) = Finite (of_nat n)"
proof (cases "n = 0")
  case True
  then show ?thesis by (simp add: round_double_def)
next
  case False
  define j where "j = 53 - bit_length n"
  from False have pos: "0 < bit_length n" by (simp add: bit_length_pos)
  from assms have le: "bit_length n \<le> 53" by (rule bit_length_le)
  from False have one: "(1 :: rat) \<le> of_nat n" by simp
  have fl: "floor_log2 (of_nat n) = int (bit_length n) - 1"
    using one by (simp add: floor_log2_def)
  have "max (floor_log2 (of_nat n) - 52) (- 1074) = - int j"
    using pos le by (simp add: fl j_def)
  moreover have "pow2 (- int j) = 1 / 2 ^ j"
    by (simp add: pow2_def)
  ultimately have q: "pow2 (max (floor_log2 (of_nat n) - 52) (- 1074)) = 1 / 2 ^ j"
    by simp
  have "(of_nat n :: rat) / (1 / 2 ^ j) = of_int (int (n * 2 ^ j))" by simp
  then have "round_half_even ((of_nat n :: rat) / (1 / 2 ^ j)) = int (n * 2 ^ j)"
    by (simp only: round_half_even_of_int)
  then have m: "round_magnitude (of_nat n) = of_nat n"
    by (simp add: round_magnitude_def q)
  have "(of_nat n :: rat) < 2 ^ 53"
    using assms by (metis of_nat_less_iff of_nat_numeral of_nat_power)
  also have "(2 :: rat) ^ 53 \<le> 2 ^ 1024" by (rule power_increasing) simp_all
  finally have "\<not> pow2 1024 \<le> (of_nat n :: rat)" by (simp add: pow2_def)
  with False m show ?thesis by (simp add: round_double_def)
qed

lemma float_of_int_nat: "n < 2 ^ 53 \<Longrightarrow> float_of_int (int n) = Inr (Finite (of_nat n))"
  using round_double_of_nat [of n] by (simp add: float_of_int_def)

lemma estimated_segments_exact:
  "(i + length lines) * 3 < 2 ^ 53 \<Longrightarrow>
   estimated_segments i lines =
     Inr (map (\<lambda>j. (Finite (of_nat ((i + j) * 3)), Finite (of_nat ((i + j + 1) * 3)), lines ! j))
            [0..<length lines])"
proof (induction lines arbitrary: i)
  case Nil
  show ?case by simp
next
  case (Cons line rest)
  have upt: "[0..<length (line # rest)] = 0 # map Suc [0..<length rest]"
    by (simp add: upt_conv_Cons map_Suc_upt del: upt_Suc)
  from Cons.prems have a: "i * 3 < 2 ^ 53" and b: "(i + 1) * 3 < 2 ^ 53"
    and c: "(i + 1 + length rest) * 3 < 2 ^ 53" by simp_all
  have "estimated_segments (i + 1) rest =
      Inr (map (\<lambda>j. (Finite (of_nat ((i + Suc j) * 3)), Finite (of_nat ((i + Suc j + 1) * 3)),
                      (line # rest) ! Suc j)) [0..<length rest])"
    using Cons.IH [OF c] by simp
  then show ?case
    unfolding upt using float_of_int_nat [OF a] float_of_int_nat [OF b]
    by (simp add: comp_def)
qed










subsection \<open>The cursor\<close>

lemma slice_step:
  "t < length cw \<Longrightarrow> t < t' \<Longrightarrow> slice cw t t' = cw ! t # slice cw (Suc t) t'"
proof -
  assume a: "t < length cw" "t < t'"
  then have "t' - t = Suc (t' - Suc t)" by simp
  with a show ?thesis by (simp add: slice_def Cons_nth_drop_Suc [symmetric])
qed

lemma slice_empty: "slice cw t t = []"
  by (simp add: slice_def)

lemma match_loop_range:
  "match_loop rt cw lwt wi t m acc = (lw, t', m') \<Longrightarrow>
     t \<le> t' \<and> (\<exists>xs. lw = acc @ xs \<and> subseq xs (slice cw t t'))"
proof (induction rt cw lwt wi t m acc arbitrary: lw t' m' rule: match_loop.induct)
  case (1 rt cw lwt wi t m acc)
  show ?case
  proof (cases "t < length cw \<and> m < length lwt")
    case False
    with "1.prems" have "lw = acc" "t' = t" by (simp_all add: match_loop.simps)
    then show ?thesis by (simp add: slice_empty)
  next
    case True
    define hit where
      "hit = list_ex (word_matches (strip_punct (lower rt (tok_word (cw ! t))))) (drop m lwt)"
    define acc' where "acc' = (if hit then acc @ [cw ! t] else acc)"
    define m2 where "m2 = (if hit then m + 1 else m)"
    have one: "slice cw t (Suc t) = [cw ! t]"
      using True by (simp add: slice_step slice_empty)
    show ?thesis
    proof (cases "length lwt * 3 < t + 1 - wi")
      case stop: True
      with True "1.prems" have "lw = acc'" "t' = Suc t"
        by (simp_all add: match_loop.simps [of rt cw lwt wi t m acc] Let_def acc'_def hit_def)
      then show ?thesis by (auto simp: acc'_def one)
    next
      case go: False
      with True "1.prems" have rec: "match_loop rt cw lwt wi (t + 1) m2 acc' = (lw, t', m')"
        by (simp add: match_loop.simps [of rt cw lwt wi t m acc] Let_def acc'_def hit_def m2_def)
      have ih: "t + 1 \<le> t' \<and> (\<exists>xs. lw = acc' @ xs \<and> subseq xs (slice cw (t + 1) t'))"
        using "1.IH" [OF True refl refl refl refl refl refl] go rec
        unfolding acc'_def m2_def hit_def by simp
      then obtain xs where xs: "lw = acc' @ xs" "subseq xs (slice cw (Suc t) t')" by auto
      from ih True have sl: "slice cw t t' = cw ! t # slice cw (Suc t) t'"
        by (simp add: slice_step)
      show ?thesis
      proof (cases hit)
        case True
        with xs have "lw = acc @ (cw ! t # xs)" by (simp add: acc'_def)
        moreover from xs have "subseq (cw ! t # xs) (slice cw t t')" by (simp add: sl)
        ultimately show ?thesis using ih by auto
      next
        case False
        with xs have "lw = acc @ xs" by (simp add: acc'_def)
        moreover from xs have "subseq xs (slice cw t t')" by (auto simp: sl)
        ultimately show ?thesis using ih by auto
      qed
    qed
  qed
qed

lemma words_for_this_line_pos: "1 \<le> words_for_this_line n_words n_lines line_idx"
  by (simp add: words_for_this_line_def Let_def)

lemma assign_words_range:
  assumes "assign_words rt cw n i line wi = (lw, wi')"
  shows "wi \<le> wi' \<and> subseq lw (slice cw wi wi')"
proof -
  obtain mlw t m where ml: "match_loop rt cw (split_ws (lower rt line)) wi wi 0 [] = (mlw, t, m)"
    by (cases "match_loop rt cw (split_ws (lower rt line)) wi wi 0 []") auto
  from match_loop_range [OF ml] have r: "wi \<le> t" "subseq mlw (slice cw wi t)" by auto
  from assms ml r show ?thesis
    by (auto simp: assign_words_def Let_def split: if_splits)
qed

lemma assignments_ranges_chain:
  "ranges_chain cw wi (assignments rt cw n i lines wi)"
proof (induction lines arbitrary: i wi)
  case Nil
  show ?case by simp
next
  case (Cons line rest)
  obtain lw wi' where a: "assign_words rt cw n i line wi = (lw, wi')"
    by (cases "assign_words rt cw n i line wi") auto
  from assign_words_range [OF a] Cons.IH [of wi' "i + 1"] a show ?case by simp
qed

lemma align_loop_segments_of:
  "align_loop rt cw n i lines segs wi = segments_of i lines (assignments rt cw n i lines wi) segs"
proof (induction lines arbitrary: i segs wi)
  case Nil
  show ?case by simp
next
  case (Cons line rest)
  obtain lw wi' where a: "assign_words rt cw n i line wi = (lw, wi')"
    by (cases "assign_words rt cw n i line wi") auto
  show ?case
  proof (cases "line_segment segs i line lw")
    case (Inl e)
    with a show ?thesis by simp
  next
    case (Inr seg)
    with a Cons.IH [of "i + 1" "segs @ [seg]" wi'] show ?thesis by simp
  qed
qed

text \<open>
  C3. The words of consecutive lines come from consecutive, non-overlapping ranges of
  the token stream: each line starts where the line before it stopped, the cursor never
  moves back, and a line's words are picked in order from the range between its two
  cursors. The segments are built from exactly these assignments.
\<close>

theorem token_ranges_never_overlap:
  "ranges_chain clean_words word_index
     (assignments rt clean_words n_lines line_idx lyrics_lines word_index) \<and>
   align_loop rt clean_words n_lines line_idx lyrics_lines segments word_index =
     segments_of line_idx lyrics_lines
       (assignments rt clean_words n_lines line_idx lyrics_lines word_index) segments"
  by (simp add: assignments_ranges_chain align_loop_segments_of)

text \<open>
  C5. The claim as stated fails: with six cleaned words and two lines, the second line
  is reached with the cursor at 2, matches nothing, and is given three words, where
  four remain for the one remaining line.
\<close>

theorem fallback_share_counterexample:
  "snd (assign_words ascii_runtime six_tokens 2 0 (ustr ''Hello world'') 0) = 2 \<and>
   too_few_matches
     (length (fst (match_loop ascii_runtime six_tokens
                     (split_ws (lower ascii_runtime (ustr ''zzzz qqqq''))) 2 2 0 [])))
     (length (split_ws (lower ascii_runtime (ustr ''zzzz qqqq'')))) \<and>
   length (fst (assign_words ascii_runtime six_tokens 2 1 (ustr ''zzzz qqqq'') 2)) \<noteq>
     spec_fallback_share (length six_tokens - 2) (2 - 1)"
proof -
  have "length six_tokens = 6" by (simp add: six_tokens_def)
  then show ?thesis
    using six_tokens_line0 six_tokens_line1 six_tokens_line1_test
    by (simp add: spec_fallback_share_def slice_def)
qed

text \<open>
  C5, as the code has it. A line that fails the acceptance test is given the words
  \<open>clean_words[word_index : word_index + k]\<close>, where the share \<open>k\<close> is computed from the
  totals: the quotient of all cleaned words by all lyric lines, at least one, and one
  more when the line's index is below the remainder. The cursor advances by \<open>k\<close>; the
  line receives \<open>k\<close> words or as many as are left.
\<close>

theorem fallback_distribution:
  assumes "too_few_matches
             (length (fst (match_loop rt clean_words (split_ws (lower rt line_text))
                             word_index word_index 0 [])))
             (length (split_ws (lower rt line_text)))"
  shows "assign_words rt clean_words n_lines line_idx line_text word_index =
           (slice clean_words word_index
              (word_index + (max 1 (length clean_words div n_lines) +
                 (if line_idx < length clean_words mod n_lines then 1 else 0))),
            word_index + (max 1 (length clean_words div n_lines) +
                 (if line_idx < length clean_words mod n_lines then 1 else 0))) \<and>
         length (fst (assign_words rt clean_words n_lines line_idx line_text word_index)) =
           min (max 1 (length clean_words div n_lines) +
                  (if line_idx < length clean_words mod n_lines then 1 else 0))
               (length clean_words - word_index)"
  using assms
  by (simp add: assign_words_def Let_def split_def words_for_this_line_def slice_def
        min.commute)

theorem fallback_distribution_witness:
  "too_few_matches
     (length (fst (match_loop ascii_runtime six_tokens
                     (split_ws (lower ascii_runtime (ustr ''zzzz qqqq''))) 2 2 0 [])))
     (length (split_ws (lower ascii_runtime (ustr ''zzzz qqqq'')))) \<and>
   assign_words ascii_runtime six_tokens 2 1 (ustr ''zzzz qqqq'') 2 = (slice six_tokens 2 5, 5)"
proof -
  have len: "length six_tokens = 6" by (simp add: six_tokens_def)
  from fallback_distribution [OF six_tokens_line1_test, of 2 1] six_tokens_line1_test
  show ?thesis by (simp add: len)
qed

text \<open>
  C6. On Scenario A the result is not the one the claim gives: the first segment is
  padded to two seconds as well.
\<close>

theorem scenario_a_counterexample:
  "parse_lyrics_timing ascii_runtime scenario_a_response scenario_a_lyrics \<noteq>
     Inr [(Finite 0, Finite 1, ustr ''Hello world''),
          (Finite 1, Finite 3, ustr ''Goodbye now'')]"
  by (simp add: scenario_a_result)

text \<open>
  C6, as the code has it. On Scenario A \<open>parse_lyrics_timing\<close> returns
  \<open>[(0, 2.0, "Hello world"), (1.0, 3.0, "Goodbye now")]\<close>: both segments are shorter than
  two seconds in the word timings and both are padded.
\<close>

theorem scenario_a_segments:
  "parse_lyrics_timing ascii_runtime scenario_a_response scenario_a_lyrics =
     Inr [(Finite 0, Finite 2, ustr ''Hello world''),
          (Finite 1, Finite 3, ustr ''Goodbye now'')]"
  by (rule scenario_a_result)

section \<open>Error cases and defaults\<close>

text \<open>
  The body of \<open>parse_lyrics_timing\<close> does raise on malformed input: a response that is a list
  has no \<open>get\<close>, a word that is a number has no \<open>strip\<close>, and a time stamp that is
  null is no float. The handler turns each of them into the empty result.
\<close>

lemma malformed_inputs_raise_inside:
  "parse_body rt (PList [PInt 1]) original_lyrics = Inl AttributeError"
  "parse_body rt (response [PDict [(ustr ''word'', PInt 5)]]) original_lyrics =
     Inl AttributeError"
  "parse_body ascii_runtime
     (response [PDict [(ustr ''word'', PStr (ustr ''Hello'')), (ustr ''startS'', PNone)]])
     original_lyrics = Inl TypeError"
  by (simp_all add: parse_body_def no_data_def aligned_path_def response_def clean_word_def
        parse_eval string_eval)

lemma fix_double_utf8_encoding_returns:
  "fix_double_utf8_encoding text =
     Inr (case (if list_all (\<lambda>c. c < 256) text then utf8_decode text else None) of
            None \<Rightarrow> apply_fixes text
          | Some corrected \<Rightarrow> corrected)"
  by (auto simp: fix_double_utf8_encoding_def encode_latin1_def decode_utf8_def
        split: sum.splits option.splits)

lemma a_ring_repaired: "fix_double_utf8_encoding [195, 8230] = Inr [197]"
  by (simp add: fix_double_utf8_encoding_returns apply_fixes_def fixes_table_def
        replace.simps)

text \<open>
  C7. The claim as stated fails for the normalizer. A number is handed to it where a
  string is expected, and \<open>encode\<close> raises \<open>AttributeError\<close>, which neither handler of
  the function catches. And a text that cannot be re-decoded is not returned unchanged:
  the table of replacements is applied to it.
\<close>

theorem normalizer_raises_counterexample:
  "fix_double_utf8_encoding_value (PInt 5) = Inl AttributeError \<and>
   fix_double_utf8_encoding_value (PStr [195, 8230]) = Inr (PStr [197])"
  by (simp add: a_ring_repaired)

text \<open>
  C7, as the code has it. \<open>parse_lyrics_timing\<close> never raises, whatever the two values
  are: it returns what its body returns, and the empty list when the body raises. The
  normalizer never raises on a string or on a falsy value: a string is returned
  re-decoded when it is Latin-1 and its bytes are valid UTF-8, and after the table of
  replacements otherwise; a falsy value is returned as it is. On any other value it
  raises \<open>AttributeError\<close>.
\<close>

theorem never_raises:
  "parse_lyrics_timing rt lyrics_data original_lyrics =
     Inr (case parse_body rt lyrics_data original_lyrics of Inl e \<Rightarrow> [] | Inr segments \<Rightarrow> segments) \<and>
   fix_double_utf8_encoding_value (PStr text) =
     Inr (PStr (case (if list_all (\<lambda>c. c < 256) text then utf8_decode text else None) of
                  None \<Rightarrow> apply_fixes text
                | Some corrected \<Rightarrow> corrected)) \<and>
   (\<not> truthy v \<longrightarrow> fix_double_utf8_encoding_value v = Inr v) \<and>
   (truthy v \<longrightarrow>
      (case v of PStr s \<Rightarrow> True | _ \<Rightarrow> fix_double_utf8_encoding_value v = Inl AttributeError))"
proof (intro conjI impI)
  show "parse_lyrics_timing rt lyrics_data original_lyrics =
     Inr (case parse_body rt lyrics_data original_lyrics of Inl e \<Rightarrow> [] | Inr segments \<Rightarrow> segments)"
    by (simp add: parse_lyrics_timing_def split: sum.splits)
  show "fix_double_utf8_encoding_value (PStr text) =
     Inr (PStr (case (if list_all (\<lambda>c. c < 256) text then utf8_decode text else None) of
                  None \<Rightarrow> apply_fixes text
                | Some corrected \<Rightarrow> corrected))"
    by (simp add: fix_double_utf8_encoding_returns)
next
  assume "\<not> truthy v"
  then show "fix_double_utf8_encoding_value v = Inr v"
    by (cases v) (simp_all add: fix_double_utf8_encoding_returns)
next
  assume "truthy v"
  then show "case v of PStr s \<Rightarrow> True
             | _ \<Rightarrow> fix_double_utf8_encoding_value v = Inl AttributeError"
    by (cases v) simp_all
qed

theorem never_raises_witness:
  "\<not> truthy PNone \<and> fix_double_utf8_encoding_value PNone = Inr PNone \<and>
   truthy (PInt 5) \<and> fix_double_utf8_encoding_value (PInt 5) = Inl AttributeError \<and>
   parse_lyrics_timing ascii_runtime (PList [PInt 1]) PNone = Inr []"
  using never_raises [of ascii_runtime "PList [PInt 1]" PNone "[]" PNone]
    never_raises [of ascii_runtime "PList [PInt 1]" PNone "[]" "PInt 5"]
  by (simp add: malformed_inputs_raise_inside)

subsection \<open>No data and no aligned words\<close>

lemma no_data_True_iff:
  "no_data lyrics_data = Inr True \<longleftrightarrow>
     \<not> truthy lyrics_data \<or>
     (\<exists>kvs. lyrics_data = PDict kvs \<and>
        (map_of kvs (ustr ''data'') = None \<or> map_of kvs (ustr ''data'') = Some PNone))"
  by (cases lyrics_data) (auto simp: no_data_def split: option.splits)

text \<open>
  When the message of the API can be printed, a response without data is answered
  from the original lyrics: three seconds for each filtered line.
\<close>

lemma fallback_when_message_prints:
  assumes "no_data lyrics_data = Inr True" "print_api_error lyrics_data = Inr ()"
    and "length (fallback_lyrics_lines rt (split_on 10 lyrics)) * 3 < 2 ^ 53"
  shows "parse_lyrics_timing rt lyrics_data (PStr lyrics) =
           Inr (map (\<lambda>i. (Finite (of_nat (i * 3)), Finite (of_nat ((i + 1) * 3)),
                           fallback_lyrics_lines rt (split_on 10 lyrics) ! i))
                  [0..<length (fallback_lyrics_lines rt (split_on 10 lyrics))])"
proof -
  define lines where "lines = fallback_lyrics_lines rt (split_on 10 lyrics)"
  have est: "estimated_segments 0 lines =
      Inr (map (\<lambda>i. (Finite (of_nat (i * 3)), Finite (of_nat ((i + 1) * 3)), lines ! i))
             [0..<length lines])"
    using estimated_segments_exact [of 0 lines] assms(3) by (simp add: lines_def)
  have "top_level_fallback rt lyrics_data (PStr lyrics) = estimated_segments 0 lines"
  proof (cases "lyrics = []")
    case True
    then have "lines = []"
      by (simp add: lines_def fallback_lyrics_lines_def strip_def strip_chars_def)
    with True assms(2) show ?thesis by (simp add: top_level_fallback_def)
  next
    case False
    with assms(2) show ?thesis
      by (cases "lines = []") (simp_all add: top_level_fallback_def Let_def lines_def)
  qed
  with assms(1) est show ?thesis
    by (simp add: parse_lyrics_timing_def parse_body_def lines_def)
qed

text \<open>
  When \<open>data\<close> is there and \<open>alignedWords\<close> is absent or empty, the result is empty,
  whatever lyrics are supplied.
\<close>

lemma no_aligned_words_gives_nothing:
  assumes "map_of kvs (ustr ''data'') = Some (PDict data)"
    and "case map_of data (ustr ''alignedWords'') of
           None \<Rightarrow> True
         | Some aligned_words \<Rightarrow> \<not> truthy aligned_words"
  shows "parse_lyrics_timing rt (PDict kvs) original_lyrics = Inr []"
proof -
  from assms(1) have "kvs \<noteq> []" by auto
  with assms(1) have nd: "no_data (PDict kvs) = Inr False" by (simp add: no_data_def)
  from assms have "aligned_path rt (PDict kvs) original_lyrics = Inr []"
    by (auto simp: aligned_path_def split: option.splits)
  with nd show ?thesis by (simp add: parse_lyrics_timing_def parse_body_def)
qed

lemma scenario_c_result:
  "parse_lyrics_timing ascii_runtime scenario_c_response (PStr scenario_b_lyrics) = Inr []"
  using no_aligned_words_gives_nothing
    [of "[(ustr ''data'', PDict [(ustr ''alignedWords'', PList [])])]"
        "[(ustr ''alignedWords'', PList [])]" ascii_runtime "PStr scenario_b_lyrics"]
  by (simp add: scenario_c_response_def response_def)

text \<open>
  C4. The code fails the claim on a response without data whose message cannot be
  printed: the message is printed inside the \<open>try\<close> block before the lines are read
  (source line 201), the print raises \<open>UnicodeEncodeError\<close> on the lone surrogate, and
  the handler returns the empty list although the original lyrics are at hand.
\<close>

theorem unprintable_msg_loses_fallback:
  "no_data unprintable_msg_response = Inr True \<and>
   parse_body ascii_runtime unprintable_msg_response (PStr (ustr ''Hello world'')) =
     Inl UnicodeEncodeError \<and>
   parse_lyrics_timing ascii_runtime unprintable_msg_response (PStr (ustr ''Hello world'')) =
     Inr []"
  by (simp add: unprintable_msg_response_def parse_eval string_eval)

subsection \<open>The success field\<close>

lemma map_of_filter_key:
  "map_of (filter (\<lambda>kv. fst kv \<noteq> k) r) k' = (if k' = k then None else map_of r k')"
  by (induction r) auto

lemma key_neq:
  "ustr ''success'' \<noteq> ustr ''word''" "ustr ''success'' \<noteq> ustr ''startS''"
  "ustr ''success'' \<noteq> ustr ''endS''"
  "ustr ''word'' \<noteq> ustr ''success''" "ustr ''startS'' \<noteq> ustr ''success''"
  "ustr ''endS'' \<noteq> ustr ''success''"
  by (simp_all add: ustr_def)

text \<open>The loop appends the token of every record that has one, in order.\<close>

lemma clean_words_loop_tokens:
  "clean_words_loop rt records acc = Inr clean_words \<Longrightarrow>
   clean_words =
     acc @ concat (map (\<lambda>word_data. case clean_word rt word_data of
                                        Inr (Some t) \<Rightarrow> [t] | _ \<Rightarrow> []) records)"
proof (induction records arbitrary: acc)
  case Nil
  then show ?case by simp
next
  case (Cons word_data rest)
  show ?case
  proof (cases "clean_word rt word_data")
    case (Inl e)
    with Cons.prems show ?thesis by simp
  next
    case (Inr result)
    show ?thesis
    proof (cases result)
      case None
      with Inr Cons.prems have "clean_words_loop rt rest acc = Inr clean_words" by simp
      from Cons.IH [OF this] Inr None show ?thesis by simp
    next
      case (Some t)
      with Inr Cons.prems have "clean_words_loop rt rest (acc @ [t]) = Inr clean_words"
        by simp
      from Cons.IH [OF this] Inr Some show ?thesis by simp
    qed
  qed
qed

text \<open>The alignment runs on the tokens of that loop.\<close>

lemma aligned_path_uses_clean_words:
  assumes data: "map_of kvs (ustr ''data'') = Some (PDict data)"
    and words: "map_of data (ustr ''alignedWords'') = Some (PList records)"
    and loop: "clean_words_loop rt records [] = Inr clean_words"
    and ne: "clean_words \<noteq> []" "lyrics \<noteq> []" "lyrics_lines_of rt (split_on 10 lyrics) \<noteq> []"
  shows "parse_lyrics_timing rt (PDict kvs) (PStr lyrics) =
           (case align_loop rt clean_words (length (lyrics_lines_of rt (split_on 10 lyrics))) 0
                   (lyrics_lines_of rt (split_on 10 lyrics)) [] 0 of
              Inl e \<Rightarrow> Inr []
            | Inr segments \<Rightarrow> Inr segments)"
proof -
  from data have "kvs \<noteq> []" by auto
  with data have nd: "no_data (PDict kvs) = Inr False" by (simp add: no_data_def)
  from loop ne(1) have "records \<noteq> []" by auto
  with data words loop ne have
    "aligned_path rt (PDict kvs) (PStr lyrics) =
       align_loop rt clean_words (length (lyrics_lines_of rt (split_on 10 lyrics))) 0
         (lyrics_lines_of rt (split_on 10 lyrics)) [] 0"
    by (simp add: aligned_path_def effective_lyrics_def Let_def)
  with nd show ?thesis by (simp add: parse_lyrics_timing_def parse_body_def)
qed

lemma bare_word_record_token:
  "clean_word ascii_runtime bare_word_record = Inr (Some (mk_token ''Hello'' 0 (1/2)))"
  by (simp add: bare_word_record_def mk_token_def parse_eval string_eval double_eval)

lemma null_success_record_dropped:
  "clean_word ascii_runtime null_success_record = Inr None"
  by (simp add: null_success_record_def clean_word_def ustr_def)

lemma bare_word_record_result:
  "parse_lyrics_timing ascii_runtime (response [bare_word_record]) (PStr (ustr ''Hello world'')) =
     Inr [(Finite 0, Finite 2, ustr ''Hello world'')]"
  by (simp add: bare_word_record_def response_def parse_eval string_eval double_eval)

lemma null_success_record_result:
  "parse_lyrics_timing ascii_runtime (response [null_success_record])
     (PStr (ustr ''Hello world'')) = Inr []"
  by (simp add: null_success_record_def response_def parse_eval string_eval)

text \<open>
  C10. The claim as stated fails in its second half: a record whose \<open>success\<close> is null,
  not false, is dropped, where the same record without the field becomes a token and
  gives the line its segment.
\<close>

theorem null_success_counterexample:
  "clean_words_loop ascii_runtime [null_success_record] [] = Inr [] \<and>
   clean_words_loop ascii_runtime [bare_word_record] [] = Inr [mk_token ''Hello'' 0 (1/2)] \<and>
   parse_lyrics_timing ascii_runtime (response [null_success_record])
     (PStr (ustr ''Hello world'')) = Inr [] \<and>
   parse_lyrics_timing ascii_runtime (response [bare_word_record])
     (PStr (ustr ''Hello world'')) = Inr [(Finite 0, Finite 2, ustr ''Hello world'')]"
  by (simp add: bare_word_record_token null_success_record_dropped bare_word_record_result
        null_success_record_result)

text \<open>
  C10, as the code has it. A word record without a \<open>success\<close> field is treated exactly
  as the same record with \<open>success\<close> true. A record with the field is dropped by the
  test exactly when the value is falsy (false, null, zero, or an empty string, list or
  dict), and is otherwise treated as if the field were absent. A record without the
  field, with a non-empty word that is no structural marker and with time stamps that
  are numbers, becomes a token; the tokens of all records, in order, are the
  \<open>clean_words\<close>, and the alignment of \<open>parse_lyrics_timing\<close> runs on them.
\<close>

theorem success_defaults_to_true:
  "(map_of r (ustr ''success'') = None \<longrightarrow>
      clean_word rt (PDict r) = clean_word rt (PDict ((ustr ''success'', PBool True) # r))) \<and>
   (map_of r (ustr ''success'') = Some v \<longrightarrow>
      clean_word rt (PDict r) =
        (if truthy v then clean_word rt (PDict (filter (\<lambda>kv. fst kv \<noteq> ustr ''success'') r))
         else Inr None)) \<and>
   (map_of r (ustr ''success'') = None \<and>
    map_of r (ustr ''word'') = Some (PStr w) \<and> strip w \<noteq> [] \<and>
    \<not> list_ex (\<lambda>marker.
          prefix marker (strip (lower rt (strip (replace_newlines (strip w))))) \<or>
          strip (lower rt (strip (replace_newlines (strip w)))) = marker)
        structural_markers \<and>
    strip (replace_newlines (strip w)) \<noteq> [] \<and>
    py_float rt (case map_of r (ustr ''startS'') of None \<Rightarrow> PInt 0 | Some x \<Rightarrow> x) = Inr s \<and>
    py_float rt (case map_of r (ustr ''endS'') of None \<Rightarrow> PInt 0 | Some x \<Rightarrow> x) = Inr e \<longrightarrow>
      clean_word rt (PDict r) =
        Inr (Some \<lparr> tok_word = strip (replace_newlines (strip w)),
                     tok_start = s, tok_end = e \<rparr>)) \<and>
   (clean_words_loop rt records [] = Inr clean_words \<longrightarrow>
      clean_words =
        concat (map (\<lambda>word_data. case clean_word rt word_data of
                                     Inr (Some t) \<Rightarrow> [t] | _ \<Rightarrow> []) records)) \<and>
   (map_of kvs (ustr ''data'') = Some (PDict data) \<and>
    map_of data (ustr ''alignedWords'') = Some (PList records) \<and>
    clean_words_loop rt records [] = Inr clean_words \<and>
    clean_words \<noteq> [] \<and> lyrics \<noteq> [] \<and> lyrics_lines_of rt (split_on 10 lyrics) \<noteq> [] \<longrightarrow>
      parse_lyrics_timing rt (PDict kvs) (PStr lyrics) =
        (case align_loop rt clean_words (length (lyrics_lines_of rt (split_on 10 lyrics))) 0
                (lyrics_lines_of rt (split_on 10 lyrics)) [] 0 of
           Inl e \<Rightarrow> Inr []
         | Inr segments \<Rightarrow> Inr segments))"
proof (intro conjI impI)
  assume "map_of r (ustr ''success'') = None"
  then show "clean_word rt (PDict r) =
      clean_word rt (PDict ((ustr ''success'', PBool True) # r))"
    by (auto simp: clean_word_def key_neq Let_def split: sum.splits)
next
  assume "map_of r (ustr ''success'') = Some v"
  then show "clean_word rt (PDict r) =
        (if truthy v then clean_word rt (PDict (filter (\<lambda>kv. fst kv \<noteq> ustr ''success'') r))
         else Inr None)"
    by (auto simp: clean_word_def map_of_filter_key key_neq Let_def split: sum.splits)
next
  assume "map_of r (ustr ''success'') = None \<and>
    map_of r (ustr ''word'') = Some (PStr w) \<and> strip w \<noteq> [] \<and>
    \<not> list_ex (\<lambda>marker.
          prefix marker (strip (lower rt (strip (replace_newlines (strip w))))) \<or>
          strip (lower rt (strip (replace_newlines (strip w)))) = marker)
        structural_markers \<and>
    strip (replace_newlines (strip w)) \<noteq> [] \<and>
    py_float rt (case map_of r (ustr ''startS'') of None \<Rightarrow> PInt 0 | Some x \<Rightarrow> x) = Inr s \<and>
    py_float rt (case map_of r (ustr ''endS'') of None \<Rightarrow> PInt 0 | Some x \<Rightarrow> x) = Inr e"
  then show "clean_word rt (PDict r) =
        Inr (Some \<lparr> tok_word = strip (replace_newlines (strip w)),
                     tok_start = s, tok_end = e \<rparr>)"
    by (simp add: clean_word_def Let_def)
next
  assume "clean_words_loop rt records [] = Inr clean_words"
  from clean_words_loop_tokens [OF this]
  show "clean_words =
        concat (map (\<lambda>word_data. case clean_word rt word_data of
                                     Inr (Some t) \<Rightarrow> [t] | _ \<Rightarrow> []) records)" by simp
next
  assume a: "map_of kvs (ustr ''data'') = Some (PDict data) \<and>
    map_of data (ustr ''alignedWords'') = Some (PList records) \<and>
    clean_words_loop rt records [] = Inr clean_words \<and>
    clean_words \<noteq> [] \<and> lyrics \<noteq> [] \<and> lyrics_lines_of rt (split_on 10 lyrics) \<noteq> []"
  then show "parse_lyrics_timing rt (PDict kvs) (PStr lyrics) =
        (case align_loop rt clean_words (length (lyrics_lines_of rt (split_on 10 lyrics))) 0
                (lyrics_lines_of rt (split_on 10 lyrics)) [] 0 of
           Inl e \<Rightarrow> Inr []
         | Inr segments \<Rightarrow> Inr segments)"
    by (intro aligned_path_uses_clean_words [where data = data and records = records]) simp_all
qed

theorem success_defaults_to_true_witness:
  "map_of [(ustr ''word'', PStr (ustr ''Hello'')), (ustr ''startS'', PInt 0),
           (ustr ''endS'', PFloat (Finite (1/2)))] (ustr ''success'') = None \<and>
   clean_word ascii_runtime
     (PDict [(ustr ''success'', PBool True), (ustr ''word'', PStr (ustr ''Hello'')),
             (ustr ''startS'', PInt 0), (ustr ''endS'', PFloat (Finite (1/2)))]) =
     Inr (Some (mk_token ''Hello'' 0 (1/2))) \<and>
   \<not> truthy PNone \<and> clean_word ascii_runtime null_success_record = Inr None \<and>
   clean_words_loop ascii_runtime [bare_word_record] [] = Inr [mk_token ''Hello'' 0 (1/2)] \<and>
   parse_lyrics_timing ascii_runtime (response [bare_word_record])
     (PStr (ustr ''Hello world'')) = Inr [(Finite 0, Finite 2, ustr ''Hello world'')]"
proof -
  let ?r = "[(ustr ''word'', PStr (ustr ''Hello'')), (ustr ''startS'', PInt 0),
             (ustr ''endS'', PFloat (Finite (1/2)))]"
  let ?tok = "mk_token ''Hello'' 0 (1/2)"
  let ?data = "[(ustr ''alignedWords'', PList [bare_word_record])]"
  let ?lines = "lyrics_lines_of ascii_runtime (split_on 10 (ustr ''Hello world''))"
  note inst = success_defaults_to_true
         [where r = ?r and rt = ascii_runtime and v = PNone and w = "ustr ''Hello''"
            and s = "Finite 0" and e = "Finite (1/2)" and records = "[bare_word_record]"
            and clean_words = "[?tok]" and kvs = "[(ustr ''data'', PDict ?data)]"
            and data = ?data and lyrics = "ustr ''Hello world''"]
  note inst_null = success_defaults_to_true
         [where r = "?r @ [(ustr ''success'', PNone)]" and rt = ascii_runtime and v = PNone]
  have none: "map_of ?r (ustr ''success'') = None" by (simp add: ustr_def)
  have well_formed:
    "map_of ?r (ustr ''success'') = None \<and>
     map_of ?r (ustr ''word'') = Some (PStr (ustr ''Hello'')) \<and> strip (ustr ''Hello'') \<noteq> [] \<and>
     \<not> list_ex (\<lambda>marker.
          prefix marker
            (strip (lower ascii_runtime (strip (replace_newlines (strip (ustr ''Hello'')))))) \<or>
          strip (lower ascii_runtime (strip (replace_newlines (strip (ustr ''Hello''))))) = marker)
        structural_markers \<and>
     strip (replace_newlines (strip (ustr ''Hello''))) \<noteq> [] \<and>
     py_float ascii_runtime
       (case map_of ?r (ustr ''startS'') of None \<Rightarrow> PInt 0 | Some x \<Rightarrow> x) = Inr (Finite 0) \<and>
     py_float ascii_runtime
       (case map_of ?r (ustr ''endS'') of None \<Rightarrow> PInt 0 | Some x \<Rightarrow> x) = Inr (Finite (1/2))"
    by (simp add: parse_eval string_eval double_eval)
  have stripped: "strip (replace_newlines (strip (ustr ''Hello''))) = ustr ''Hello''"
    by (simp add: string_eval)
  from inst [THEN conjunct2, THEN conjunct2, THEN conjunct1, THEN mp, OF well_formed]
  have tok: "clean_word ascii_runtime (PDict ?r) = Inr (Some ?tok)"
    by (simp only: stripped mk_token_def)
  from inst [THEN conjunct1, THEN mp, OF none] tok
  have a: "clean_word ascii_runtime (PDict ((ustr ''success'', PBool True) # ?r)) =
             Inr (Some ?tok)"
    by simp
  from tok have loop: "clean_words_loop ascii_runtime [bare_word_record] [] = Inr [?tok]"
    by (simp add: bare_word_record_def)
  have lines: "?lines \<noteq> []"
    by (simp add: parse_eval string_eval)
  have align: "align_loop ascii_runtime [?tok] (length ?lines) 0 ?lines [] 0 =
      Inr [(Finite 0, Finite 2, ustr ''Hello world'')]"
    by (simp add: mk_token_def parse_eval string_eval double_eval)
  have aligned:
    "map_of [(ustr ''data'', PDict ?data)] (ustr ''data'') = Some (PDict ?data) \<and>
     map_of ?data (ustr ''alignedWords'') = Some (PList [bare_word_record]) \<and>
     clean_words_loop ascii_runtime [bare_word_record] [] = Inr [?tok] \<and>
     [?tok] \<noteq> [] \<and> ustr ''Hello world'' \<noteq> [] \<and> ?lines \<noteq> []"
    using loop lines by (simp add: ustr_def)
  from inst [THEN conjunct2, THEN conjunct2, THEN conjunct2, THEN conjunct2, THEN mp,
             OF aligned]
  have e: "parse_lyrics_timing ascii_runtime (response [bare_word_record])
              (PStr (ustr ''Hello world'')) = Inr [(Finite 0, Finite 2, ustr ''Hello world'')]"
    by (simp only: align response_def sum.case)
  have null: "map_of (?r @ [(ustr ''success'', PNone)]) (ustr ''success'') = Some PNone"
    by (simp add: ustr_def)
  from inst_null [THEN conjunct2, THEN conjunct1, THEN mp, OF null]
  have b: "clean_word ascii_runtime null_success_record = Inr None"
    by (simp add: null_success_record_def)
  from none a b loop e show ?thesis by simp
qed

section \<open>Text wrapping\<close>

lemma split_ws_from_words:
  "list_all (\<lambda>c. \<not> is_space c) cur \<Longrightarrow>
   list_all (\<lambda>w. w \<noteq> [] \<and> list_all (\<lambda>c. \<not> is_space c) w) (split_ws_from cur s)"
  by (induction s arbitrary: cur) auto

lemma split_ws_words:
  "list_all (\<lambda>w. w \<noteq> [] \<and> list_all (\<lambda>c. \<not> is_space c) w) (split_ws s)"
  by (simp add: split_ws_def split_ws_from_words)

lemma split_ws_from_append_word:
  "list_all (\<lambda>c. \<not> is_space c) w \<Longrightarrow>
   split_ws_from cur (w @ rest) = split_ws_from (cur @ w) rest"
  by (induction w arbitrary: cur) auto

lemma is_space_32: "is_space 32"
  by (simp add: is_space_def)

lemma split_ws_from_word_space:
  assumes "w \<noteq> []" "list_all (\<lambda>c. \<not> is_space c) w"
  shows "split_ws_from [] (w @ 32 # rest) = w # split_ws_from [] rest"
  using assms by (simp add: split_ws_from_append_word is_space_32)

lemma split_ws_join_sp_then:
  "list_all (\<lambda>w. w \<noteq> [] \<and> list_all (\<lambda>c. \<not> is_space c) w) ws \<Longrightarrow>
   split_ws_from [] (join_sp ws @ 32 # rest) = ws @ split_ws_from [] rest"
proof (induction ws rule: join_sp.induct)
  case 1
  show ?case by (simp add: is_space_32)
next
  case (2 w)
  then show ?case by (simp add: split_ws_from_word_space)
next
  case (3 w v ws)
  then show ?case by (simp add: split_ws_from_word_space)
qed

lemma split_ws_join_sp:
  "list_all (\<lambda>w. w \<noteq> [] \<and> list_all (\<lambda>c. \<not> is_space c) w) ws \<Longrightarrow>
   split_ws (join_sp ws) = ws"
proof (induction ws rule: join_sp.induct)
  case 1
  show ?case by (simp add: split_ws_def)
next
  case (2 w)
  then show ?case
    using split_ws_from_append_word [of w "[]" "[]"] by (simp add: split_ws_def)
next
  case (3 w v ws)
  then show ?case by (simp add: split_ws_def split_ws_from_word_space)
qed

lemma join_sp_nonempty:
  "ws \<noteq> [] \<Longrightarrow> list_all (\<lambda>w. w \<noteq> []) ws \<Longrightarrow> join_sp ws \<noteq> []"
  by (induction ws rule: join_sp.induct) auto

lemma find_split_bounds:
  "find_split mid_point i current_length ws = Some j \<Longrightarrow> i \<le> j \<and> j < i + length ws"
proof (induction ws arbitrary: i current_length)
  case Nil
  then show ?case by simp
next
  case (Cons w ws)
  show ?case
  proof (cases "mid_point \<le> current_length + (length w + (if i > 0 then 1 else 0))")
    case True
    with Cons.prems show ?thesis by (simp add: Let_def)
  next
    case False
    with Cons.prems have
      "find_split mid_point (i + 1) (current_length + (length w + (if i > 0 then 1 else 0))) ws
         = Some j"
      by (simp add: Let_def)
    from Cons.IH [OF this] show ?thesis by simp
  qed
qed

lemma take_drop_words:
  assumes good: "list_all (\<lambda>w. w \<noteq> [] \<and> list_all (\<lambda>c. \<not> is_space c) w) ws"
  shows "split_ws (join_sp (take k ws)) = take k ws"
    and "split_ws (join_sp (drop k ws)) = drop k ws"
proof -
  from good have "list_all (\<lambda>w. w \<noteq> [] \<and> list_all (\<lambda>c. \<not> is_space c) w) (take k ws)"
    by (auto simp: list_all_iff dest: in_set_takeD)
  then show "split_ws (join_sp (take k ws)) = take k ws" by (rule split_ws_join_sp)
  from good have "list_all (\<lambda>w. w \<noteq> [] \<and> list_all (\<lambda>c. \<not> is_space c) w) (drop k ws)"
    by (auto simp: list_all_iff dest: in_set_dropD)
  then show "split_ws (join_sp (drop k ws)) = drop k ws" by (rule split_ws_join_sp)
qed

lemma two_lines_words:
  assumes good: "list_all (\<lambda>w. w \<noteq> [] \<and> list_all (\<lambda>c. \<not> is_space c) w) ws"
  shows "split_ws (join_sp [join_sp (take k ws), join_sp (drop k ws)]) = ws"
proof -
  from good have t: "list_all (\<lambda>w. w \<noteq> [] \<and> list_all (\<lambda>c. \<not> is_space c) w) (take k ws)"
    by (auto simp: list_all_iff dest: in_set_takeD)
  have "split_ws (join_sp [join_sp (take k ws), join_sp (drop k ws)]) =
        take k ws @ split_ws_from [] (join_sp (drop k ws))"
    using split_ws_join_sp_then [OF t, of "join_sp (drop k ws)"] by (simp add: split_ws_def)
  also have "\<dots> = take k ws @ drop k ws"
    using take_drop_words(2) [OF good, of k] by (simp add: split_ws_def)
  finally show ?thesis by simp
qed

lemma wrap_two_words:
  assumes long: "max_chars < int (length text)" and two: "2 \<le> length (split_ws text)"
  shows "\<exists>k<length (split_ws text).
           wrap_text_intelligently text max_chars =
             [join_sp (take k (split_ws text)), join_sp (drop k (split_ws text))]"
proof -
  define ws where "ws = split_ws text"
  define best_split where
    "best_split = (case find_split (length text div 2) 0 0 ws of
                     None \<Rightarrow> length ws div 2 | Some i \<Rightarrow> i)"
  define k where
    "k = (if int (length (join_sp (drop best_split ws))) > max_chars \<and> best_split > 1
          then best_split - 1 else best_split)"
  from two have len: "2 \<le> length ws" by (simp add: ws_def)
  have "best_split < length ws"
  proof (cases "find_split (length text div 2) 0 0 ws")
    case None
    with len show ?thesis by (simp add: best_split_def)
  next
    case (Some i)
    from find_split_bounds [OF Some] Some show ?thesis by (simp add: best_split_def)
  qed
  then have k: "k < length ws" by (auto simp: k_def)
  have good: "list_all (\<lambda>w. w \<noteq> [] \<and> list_all (\<lambda>c. \<not> is_space c) w) ws"
    unfolding ws_def by (rule split_ws_words)
  then have "list_all (\<lambda>w. w \<noteq> []) (drop k ws)"
    by (auto simp: list_all_iff dest: in_set_dropD)
  moreover from k have "drop k ws \<noteq> []" by simp
  ultimately have ne: "join_sp (drop k ws) \<noteq> []" by (simp add: join_sp_nonempty)
  from long len have
    "wrap_text_intelligently text max_chars =
       (if join_sp (drop k ws) \<noteq> [] then [join_sp (take k ws), join_sp (drop k ws)]
        else [join_sp (take k ws)])"
    unfolding k_def best_split_def ws_def
    by (simp add: wrap_text_intelligently_def Let_def)
  with ne k show ?thesis unfolding ws_def by auto
qed

lemmas wrap_eval =
  wrap_text_intelligently_def py_take_def py_drop_def Let_def

lemma wrap_one_long_word:
  "wrap_text_intelligently (ustr ''abcdefghij'') 5 = [ustr ''abcde'', ustr ''fghij'']"
  by (simp add: wrap_eval string_eval)

text \<open>
  C8. The claim as stated fails on a text that is one word longer than the limit: the
  word is cut at the limit, and the two lines joined by a space read as two words.
\<close>

theorem wrap_breaks_single_word_counterexample:
  "(5 :: int) < int (length (ustr ''abcdefghij'')) \<and>
   wrap_text_intelligently (ustr ''abcdefghij'') 5 = [ustr ''abcde'', ustr ''fghij''] \<and>
   split_ws (join_sp (wrap_text_intelligently (ustr ''abcdefghij'') 5)) \<noteq>
     split_ws (ustr ''abcdefghij'')"
  by (simp add: wrap_one_long_word) (simp add: string_eval)

text \<open>
  C8, as the code has it. A text within the limit is returned alone. A longer text of
  at least two words is returned as exactly two lines, the first \<open>k\<close> words and the
  remaining ones, each joined by single spaces: no word is broken, and the lines joined
  by a single space give back the words of the text. A longer text of at most one word
  is cut at the limit, \<open>[text[:max], text[max:]]\<close>.
\<close>

theorem wrap_text_intelligently_lines:
  "(int (length text) \<le> max_chars \<longrightarrow> wrap_text_intelligently text max_chars = [text]) \<and>
   (max_chars < int (length text) \<and> 2 \<le> length (split_ws text) \<longrightarrow>
      (\<exists>k<length (split_ws text).
         wrap_text_intelligently text max_chars =
           [join_sp (take k (split_ws text)), join_sp (drop k (split_ws text))]) \<and>
      length (wrap_text_intelligently text max_chars) = 2 \<and>
      concat (map split_ws (wrap_text_intelligently text max_chars)) = split_ws text \<and>
      split_ws (join_sp (wrap_text_intelligently text max_chars)) = split_ws text) \<and>
   (max_chars < int (length text) \<and> length (split_ws text) \<le> 1 \<longrightarrow>
      wrap_text_intelligently text max_chars =
        [py_take max_chars text, py_drop max_chars text])"
proof (intro conjI impI)
  assume "int (length text) \<le> max_chars"
  then show "wrap_text_intelligently text max_chars = [text]"
    by (simp add: wrap_text_intelligently_def)
next
  assume "max_chars < int (length text) \<and> length (split_ws text) \<le> 1"
  then show "wrap_text_intelligently text max_chars =
        [py_take max_chars text, py_drop max_chars text]"
    by (simp add: wrap_text_intelligently_def Let_def)
next
  assume a: "max_chars < int (length text) \<and> 2 \<le> length (split_ws text)"
  then obtain k where k: "k < length (split_ws text)"
    and w: "wrap_text_intelligently text max_chars =
             [join_sp (take k (split_ws text)), join_sp (drop k (split_ws text))]"
    using wrap_two_words [of max_chars "text"] by auto
  from k w show "\<exists>k<length (split_ws text).
         wrap_text_intelligently text max_chars =
           [join_sp (take k (split_ws text)), join_sp (drop k (split_ws text))]" by auto
  from w show "length (wrap_text_intelligently text max_chars) = 2" by simp
  from w show "concat (map split_ws (wrap_text_intelligently text max_chars)) = split_ws text"
    by (simp add: take_drop_words [OF split_ws_words])
  from w show "split_ws (join_sp (wrap_text_intelligently text max_chars)) = split_ws text"
    by (simp only: two_lines_words [OF split_ws_words])
qed

lemma wrap_four_words:
  "wrap_text_intelligently (ustr ''hello big wide world'') 12 =
     [ustr ''hello big'', ustr ''wide world'']"
  by (simp add: wrap_eval string_eval)

lemma four_words:
  "split_ws (ustr ''hello big wide world'') =
     [ustr ''hello'', ustr ''big'', ustr ''wide'', ustr ''world'']"
  by (simp add: string_eval)

theorem wrap_text_intelligently_lines_witness:
  "int (length (ustr ''hi'')) \<le> 5 \<and> wrap_text_intelligently (ustr ''hi'') 5 = [ustr ''hi''] \<and>
   12 < int (length (ustr ''hello big wide world'')) \<and>
   2 \<le> length (split_ws (ustr ''hello big wide world'')) \<and>
   wrap_text_intelligently (ustr ''hello big wide world'') 12 =
     [ustr ''hello big'', ustr ''wide world''] \<and>
   split_ws (join_sp [ustr ''hello big'', ustr ''wide world'']) =
     [ustr ''hello'', ustr ''big'', ustr ''wide'', ustr ''world''] \<and>
   5 < int (length (ustr ''abcdefghij'')) \<and> length (split_ws (ustr ''abcdefghij'')) \<le> 1 \<and>
   wrap_text_intelligently (ustr ''abcdefghij'') 5 =
     [py_take 5 (ustr ''abcdefghij''), py_drop 5 (ustr ''abcdefghij'')]"
proof -
  have h1: "int (length (ustr ''hi'')) \<le> 5" by (simp add: ustr_def)
  have h2: "12 < int (length (ustr ''hello big wide world''))" by (simp add: ustr_def)
  have h3: "2 \<le> length (split_ws (ustr ''hello big wide world''))" by (simp add: four_words)
  have h4: "5 < int (length (ustr ''abcdefghij''))" by (simp add: ustr_def)
  have h5: "length (split_ws (ustr ''abcdefghij'')) \<le> 1" by (simp add: string_eval)
  from wrap_text_intelligently_lines [of "ustr ''hi''" 5] h1
  have a: "wrap_text_intelligently (ustr ''hi'') 5 = [ustr ''hi'']" by blast
  from wrap_text_intelligently_lines [of "ustr ''hello big wide world''" 12] h2 h3
  have b: "split_ws (join_sp (wrap_text_intelligently (ustr ''hello big wide world'') 12)) =
      split_ws (ustr ''hello big wide world'')" by blast
  from wrap_text_intelligently_lines [of "ustr ''abcdefghij''" 5] h4 h5
  have c: "wrap_text_intelligently (ustr ''abcdefghij'') 5 =
     [py_take 5 (ustr ''abcdefghij''), py_drop 5 (ustr ''abcdefghij'')]" by blast
  from a b c h1 h2 h3 h4 h5 show ?thesis
    by (simp only: wrap_four_words four_words)
qed

section \<open>The encoding normalizer\<close>

lemma fix_double_utf8_encoding_eq:
  "fix_double_utf8_encoding text =
     Inr (case (if list_all (\<lambda>c. c < 256) text then utf8_decode text else None) of
            None \<Rightarrow> apply_fixes text
          | Some corrected \<Rightarrow> corrected)"
  by (auto simp: fix_double_utf8_encoding_def encode_latin1_def decode_utf8_def
        split: sum.splits option.splits)

lemma utf8_decode_ascii: "list_all (\<lambda>c. c < 128) bs \<Longrightarrow> utf8_decode bs = Some bs"
  by (induction bs) auto

lemma utf8_decode_length:
  "utf8_decode bs = Some s \<Longrightarrow>
   length s + (if list_all (\<lambda>c. c < 128) bs then 0 else 1) \<le> length bs"
proof (induction bs arbitrary: s rule: utf8_decode.induct)
  case 1
  then show ?case by simp
next
  case (2 b0 bs)
  show ?case
  proof (cases "b0 < 128")
    case True
    with "2.prems" obtain s' where s': "utf8_decode bs = Some s'" "s = b0 # s'"
      by auto
    from "2.IH"(1) [OF True s'(1)] True s'(2) show ?thesis by (auto split: if_splits)
  next
    case hi: False
    show ?thesis
    proof (cases "194 \<le> b0 \<and> b0 \<le> 223")
      case True
      with hi "2.prems" obtain b1 r s' where
        e: "bs = b1 # r" "is_cont b1" "utf8_decode r = Some s'" "length s = Suc (length s')"
        by (auto split: list.splits if_splits)
      from "2.IH"(2) [OF hi True e(1) e(2) e(3)] e hi show ?thesis
        by (auto split: if_splits)
    next
      case two: False
      show ?thesis
      proof (cases "224 \<le> b0 \<and> b0 \<le> 239")
        case True
        with hi two "2.prems" obtain b1 b2 r s' where
          e: "bs = b1 # b2 # r"
             "(if b0 = 224 then 160 else 128) \<le> b1 \<and> b1 \<le> (if b0 = 237 then 159 else 191)
                \<and> is_cont b2"
             "utf8_decode r = Some s'" "length s = Suc (length s')"
          by (auto split: list.splits if_splits)
        from "2.IH"(3) [OF hi two True e(1) refl e(2) e(3)] e hi show ?thesis
          by (auto split: if_splits)
      next
        case three: False
        show ?thesis
        proof (cases "240 \<le> b0 \<and> b0 \<le> 244")
          case True
          with hi two three "2.prems" obtain b1 b2 b3 r s' where
            e: "bs = b1 # b2 # b3 # r"
               "(if b0 = 240 then 144 else 128) \<le> b1 \<and> b1 \<le> (if b0 = 244 then 143 else 191)
                  \<and> is_cont b2 \<and> is_cont b3"
               "utf8_decode r = Some s'" "length s = Suc (length s')"
            by (auto split: list.splits if_splits)
          from "2.IH"(4) [OF hi two three True e(1) refl refl e(2) e(3)] e hi show ?thesis
            by (auto split: if_splits)
        next
          case four: False
          with hi two three "2.prems" show ?thesis by (auto split: if_splits)
        qed
      qed
    qed
  qed
qed

lemma utf8_decode_fixed_ascii:
  "utf8_decode bs = Some bs \<Longrightarrow> list_all (\<lambda>c. c < 128) bs"
  using utf8_decode_length [of bs bs] by (auto split: if_splits)

lemma replace_no_occurrence:
  "old \<noteq> [] \<Longrightarrow> \<not> sublist old s \<Longrightarrow> replace old new s = s"
proof (induction s)
  case Nil
  then show ?case by (simp add: replace.simps)
next
  case (Cons c cs)
  from Cons.prems have "\<not> prefix old (c # cs)" "\<not> sublist old cs"
    by (auto simp: sublist_Cons_right)
  with Cons show ?case by (simp add: replace.simps [of old new "c # cs"])
qed

lemma replace_length_le:
  "old \<noteq> [] \<Longrightarrow> length new \<le> length old \<Longrightarrow> length (replace old new s) \<le> length s"
proof (induction old new s rule: replace.induct)
  case (1 old new s)
  show ?case
  proof (cases "s = []")
    case True
    with "1.prems" show ?thesis by (simp add: replace.simps)
  next
    case ne: False
    show ?thesis
    proof (cases "prefix old s")
      case True
      then have "length old \<le> length s" by (rule prefix_length_le)
      moreover from "1.IH"(1) [OF "1.prems"(1) ne True "1.prems"]
      have "length (replace old new (drop (length old) s)) \<le> length s - length old" by simp
      ultimately show ?thesis
        using "1.prems" ne True by (simp add: replace.simps [of old new s])
    next
      case False
      from ne obtain c cs where s: "s = c # cs" by (cases s) auto
      from "1.IH"(2) [OF "1.prems"(1) ne False "1.prems"]
      have "length (replace old new cs) \<le> length cs" by (simp add: s)
      with "1.prems" False [unfolded s] show ?thesis
        unfolding s by (simp add: replace.simps [of old new "c # cs"])
    qed
  qed
qed

lemma replace_length_less:
  "old \<noteq> [] \<Longrightarrow> length new < length old \<Longrightarrow> sublist old s \<Longrightarrow>
   length (replace old new s) < length s"
proof (induction s)
  case Nil
  then show ?case by simp
next
  case (Cons c cs)
  show ?case
  proof (cases "prefix old (c # cs)")
    case True
    then have "length old \<le> length (c # cs)" by (rule prefix_length_le)
    moreover have "length (replace old new (drop (length old) (c # cs)))
        \<le> length (drop (length old) (c # cs))"
      using Cons.prems by (intro replace_length_le) simp_all
    ultimately show ?thesis
      using Cons.prems True by (simp add: replace.simps [of old new "c # cs"])
  next
    case False
    with Cons.prems have "sublist old cs" by (simp add: sublist_Cons_right)
    from Cons.IH [OF Cons.prems(1,2) this] Cons.prems False show ?thesis
      by (simp add: replace.simps [of old new "c # cs"])
  qed
qed

lemma foldl_replace_no_key:
  "list_all (\<lambda>(bad, good). bad \<noteq> [] \<and> \<not> sublist bad t) tbl \<Longrightarrow>
   foldl (\<lambda>result (bad, good). replace bad good result) t tbl = t"
  by (induction tbl) (auto simp: replace_no_occurrence)

lemma foldl_replace_length_le:
  "list_all (\<lambda>(bad, good). bad \<noteq> [] \<and> length good < length bad) tbl \<Longrightarrow>
   length (foldl (\<lambda>result (bad, good). replace bad good result) t tbl) \<le> length t"
proof (induction tbl arbitrary: t)
  case Nil
  show ?case by simp
next
  case (Cons p tbl)
  obtain bad good where p: "p = (bad, good)" by (cases p)
  with Cons.prems have ok: "bad \<noteq> []" "length good < length bad"
    and rest: "list_all (\<lambda>(bad, good). bad \<noteq> [] \<and> length good < length bad) tbl" by auto
  have "length (replace bad good t) \<le> length t" using ok by (intro replace_length_le) simp_all
  with Cons.IH [OF rest, of "replace bad good t"] show ?case by (simp add: p)
qed

lemma foldl_replace_length_less:
  "list_all (\<lambda>(bad, good). bad \<noteq> [] \<and> length good < length bad) tbl \<Longrightarrow>
   list_ex (\<lambda>(bad, good). sublist bad t) tbl \<Longrightarrow>
   length (foldl (\<lambda>result (bad, good). replace bad good result) t tbl) < length t"
proof (induction tbl arbitrary: t)
  case Nil
  then show ?case by simp
next
  case (Cons p tbl)
  obtain bad good where p: "p = (bad, good)" by (cases p)
  with Cons.prems have ok: "bad \<noteq> []" "length good < length bad"
    and rest: "list_all (\<lambda>(bad, good). bad \<noteq> [] \<and> length good < length bad) tbl" by auto
  show ?case
  proof (cases "sublist bad t")
    case True
    from replace_length_less [OF ok True]
      foldl_replace_length_le [OF rest, of "replace bad good t"]
    show ?thesis by (simp add: p)
  next
    case False
    with Cons.prems p have ex: "list_ex (\<lambda>(bad, good). sublist bad t) tbl" by simp
    from False ok have "replace bad good t = t" by (simp add: replace_no_occurrence)
    with Cons.IH [OF rest ex] show ?thesis by (simp add: p)
  qed
qed

lemma fixes_table_ok:
  "list_all (\<lambda>(bad, good). bad \<noteq> [] \<and> length good < length bad) fixes_table"
  by (simp add: fixes_table_def)

lemma apply_fixes_no_key: "\<not> has_fix_key t \<Longrightarrow> apply_fixes t = t"
proof -
  assume "\<not> has_fix_key t"
  then have "list_all (\<lambda>(bad, good). \<not> sublist bad t) fixes_table"
    by (auto simp: has_fix_key_def list_all_iff list_ex_iff)
  with fixes_table_ok have
    "list_all (\<lambda>(bad, good). bad \<noteq> [] \<and> \<not> sublist bad t) fixes_table"
    by (auto simp: list_all_iff)
  then show ?thesis unfolding apply_fixes_def by (rule foldl_replace_no_key)
qed

lemma apply_fixes_key: "has_fix_key t \<Longrightarrow> length (apply_fixes t) < length t"
  unfolding apply_fixes_def has_fix_key_def
  by (rule foldl_replace_length_less [OF fixes_table_ok])

lemma fixed_point_iff_settled:
  "fix_double_utf8_encoding t = Inr t \<longleftrightarrow> settled t"
proof (cases "reinterpretable t")
  case True
  then obtain c where c: "list_all (\<lambda>c. c < 256) t" "utf8_decode t = Some c"
    by (auto simp: reinterpretable_def)
  then have "fix_double_utf8_encoding t = Inr c" by (simp add: fix_double_utf8_encoding_eq)
  moreover have "c = t \<longleftrightarrow> list_all (\<lambda>c. c < 128) t"
    using c(2) utf8_decode_fixed_ascii [of t] utf8_decode_ascii [of t] by auto
  ultimately show ?thesis using True by (simp add: settled_def)
next
  case False
  then have r: "fix_double_utf8_encoding t = Inr (apply_fixes t)"
    by (auto simp: fix_double_utf8_encoding_eq reinterpretable_def)
  have na: "\<not> list_all (\<lambda>c. c < 128) t"
  proof
    assume a: "list_all (\<lambda>c. c < 128) t"
    then have "list_all (\<lambda>c. c < 256) t" by (induction t) auto
    with utf8_decode_ascii [OF a] have "reinterpretable t" by (simp add: reinterpretable_def)
    with False show False ..
  qed
  have "apply_fixes t = t \<longleftrightarrow> \<not> has_fix_key t"
    using apply_fixes_no_key [of t] apply_fixes_key [of t] by auto
  with r False na show ?thesis by (simp add: settled_def)
qed

lemma twice_misdecoded:
  "fix_double_utf8_encoding [195, 131, 194, 169] = Inr [195, 169]"
  by (simp add: fix_double_utf8_encoding_eq is_cont_def)

lemma once_misdecoded: "fix_double_utf8_encoding [195, 169] = Inr [233]"
  by (simp add: fix_double_utf8_encoding_eq is_cont_def)

text \<open>
  C9. The claim as stated fails on a text that was mis-decoded twice: the four code
  points \<open>C3 83 C2 A9\<close> are normalized to \<open>C3 A9\<close>, and these again to \<open>E9\<close>.
\<close>

theorem normalizer_not_idempotent_counterexample:
  "fix_double_utf8_encoding [195, 131, 194, 169] = Inr [195, 169] \<and>
   fix_double_utf8_encoding [195, 169] \<noteq> Inr [195, 169]"
  by (simp add: twice_misdecoded once_misdecoded)

text \<open>
  C9, as the code has it. The normalizer makes one repair pass, and a second
  application changes nothing exactly when the first result is settled: for every
  \<open>s\<close>, normalizing the normalized \<open>s\<close> gives the normalized \<open>s\<close> if and only if the
  normalized \<open>s\<close> is ASCII only, or can neither be re-decoded nor holds a sequence of the
  replacement table.
\<close>

theorem normalizer_idempotent_iff_settled:
  assumes "fix_double_utf8_encoding s = Inr t"
  shows "fix_double_utf8_encoding t = Inr t \<longleftrightarrow> settled t"
  by (rule fixed_point_iff_settled)

lemma settled_e_acute: "settled [233]"
  by (simp add: settled_def reinterpretable_def has_fix_key_def fixes_table_def
        sublist_Cons_right)

theorem normalizer_idempotent_iff_settled_witness:
  "fix_double_utf8_encoding [195, 169] = Inr [233] \<and>
   fix_double_utf8_encoding [233] = Inr [233] \<and> settled [233]"
  using normalizer_idempotent_iff_settled [OF once_misdecoded] once_misdecoded settled_e_acute
  by simp

end
